theory Spec2Isabelle
  imports Main "HOL-Library.Sublist"
begin

section \<open>Data model of MarkdownConvertor.ts\<close>

text \<open>
  The repository holds two revisions of \<^verbatim>\<open>MarkdownConvertor.ts\<close>. They share the
  serialization state and the dispatcher; they differ in the inline reconciler
  (\<^verbatim>\<open>getInlineText\<close> with its unclosed-tag stack in the first, the prefix diff of
  \<^verbatim>\<open>flushInline\<close> in the second), in \<^verbatim>\<open>convertInline\<close> and in the line-break
  and text conversions. Both are embedded; where a function differs, the first revision's
  name ends in \<open>1\<close> and the second's in \<open>2\<close>.

  JavaScript strings are modelled as HOL strings, \<^verbatim>\<open>undefined\<close>/\<^verbatim>\<open>null\<close>/\<^verbatim>\<open>false\<close>
  alternatives as \<open>option\<close>, and the mutable object as a record that every method
  takes and returns. The fields \<^verbatim>\<open>type\<close> and \<^verbatim>\<open>text\<close> are \<open>ftype\<close> and \<open>itext\<close>,
  the methods \<^verbatim>\<open>write\<close> and \<^verbatim>\<open>text\<close> are \<open>write_m\<close> and \<open>text_m\<close>: the plain
  names are reserved words of Isabelle.
\<close>

text \<open>\<^verbatim>\<open>type InlineFormat = {type, openTag, closeTag, htmlInline?}\<close>\<close>

record InlineFormat =
  ftype :: string
  openTag :: string
  closeTag :: string
  htmlInline :: "bool option"

text \<open>\<^verbatim>\<open>type InlineText = {text, formats}\<close>\<close>

record InlineText =
  itext :: string
  formats :: "InlineFormat list"

text \<open>
  The host document tree (package \<^verbatim>\<open>lexical\<close>, not part of the sources) as far as
  the serializer reads it: the node kinds its type guards tell apart, the children of an
  element, the text and the format flags of a text leaf, the level of a heading
  (\<^verbatim>\<open>getTag()\<close> is \<^verbatim>\<open>'h'\<close> followed by the level), the URL and title of a link
  and, for an autolink, its \<^verbatim>\<open>getIsUnlinked()\<close>, the type name and \<^verbatim>\<open>isInline()\<close> of
  any other element, the type name of a decorator.
\<close>

datatype LexicalNode =
    TextNode string "string list"
  | LineBreakNode
  | TabNode
  | ParagraphNode "LexicalNode list"
  | HeadingNode nat "LexicalNode list"
  | LinkNode "bool option" string "string option" "LexicalNode list"
  | ElementNode string bool "LexicalNode list"
  | DecoratorNode string

text \<open>The fields of \<^verbatim>\<open>class MarkdownConvertorState\<close>, the conversion collection apart
  (it is passed to the dispatcher as an argument).\<close>

record MarkdownConvertorState =
  delim :: string
  result :: string
  closed :: "LexicalNode option"
  stopNewline :: bool
  inlineBuffer :: "InlineText list"

definition newState :: MarkdownConvertorState where
  "newState = \<lparr>delim = [], result = [], closed = None, stopNewline = False, inlineBuffer = []\<rparr>"

section \<open>Output primitives\<close>

definition newline :: string where
  "newline = [CHR 0x0A]"

definition addOutput :: "string \<Rightarrow> MarkdownConvertorState \<Rightarrow> MarkdownConvertorState" where
  "addOutput output st = st\<lparr>result := result st @ output\<rparr>"

text \<open>\<^verbatim>\<open>/(^|\n)$/.test(this._result)\<close>: the result is empty or ends in a line feed.\<close>

definition isInBlank :: "MarkdownConvertorState \<Rightarrow> bool" where
  "isInBlank st = (result st = [] \<or> last (result st) = CHR 0x0A)"

definition setDelim :: "string \<Rightarrow> MarkdownConvertorState \<Rightarrow> MarkdownConvertorState" where
  "setDelim d st = st\<lparr>delim := d\<rparr>"

definition getDelim :: "MarkdownConvertorState \<Rightarrow> string" where
  "getDelim st = delim st"

definition setStopNewline :: "bool \<Rightarrow> MarkdownConvertorState \<Rightarrow> MarkdownConvertorState" where
  "setStopNewline b st = st\<lparr>stopNewline := b\<rparr>"

definition getStopNewline :: "MarkdownConvertorState \<Rightarrow> bool" where
  "getStopNewline st = stopNewline st"

definition getClosed :: "MarkdownConvertorState \<Rightarrow> LexicalNode option" where
  "getClosed st = closed st"

definition getResult :: "MarkdownConvertorState \<Rightarrow> string" where
  "getResult st = result st"

definition ensureNewLine :: "MarkdownConvertorState \<Rightarrow> MarkdownConvertorState" where
  "ensureNewLine st = (if isInBlank st then st else addOutput newline st)"

text \<open>The white space class \<^verbatim>\<open>\s\<close> on the characters of a HOL string: its ASCII
  members.\<close>

definition isWhiteSpace :: "char \<Rightarrow> bool" where
  "isWhiteSpace c = (c \<in> set [CHR 0x20, CHR 0x09, CHR 0x0A, CHR 0x0B, CHR 0x0C, CHR 0x0D])"

text \<open>\<^verbatim>\<open>/\s+$/.exec(delimMin)\<close> and the \<^verbatim>\<open>slice\<close> that cuts the match off.\<close>

definition trimEnd :: "string \<Rightarrow> string" where
  "trimEnd s = rev (dropWhile isWhiteSpace (rev s))"

text \<open>\<^verbatim>\<open>for (let i = 1; i < size; i += 1) this.addOutput(`${delimMin}\n`)\<close>, counted
  by the iterations that are left. The \<^verbatim>\<open>size\<close> of \<^verbatim>\<open>flushClose\<close> is an integer (the
  sources pass 1, 2 and 3).\<close>

fun addDelimLines :: "nat \<Rightarrow> string \<Rightarrow> MarkdownConvertorState \<Rightarrow> MarkdownConvertorState" where
  "addDelimLines 0 delimMin st = st"
| "addDelimLines (Suc n) delimMin st = addDelimLines n delimMin (addOutput (delimMin @ newline) st)"

definition flushClose :: "int \<Rightarrow> MarkdownConvertorState \<Rightarrow> MarkdownConvertorState" where
  "flushClose sz st =
     (if stopNewline st \<or> closed st = None then st
      else
        let st1 = (if \<not> isInBlank st then addOutput newline st else st);
            st2 = (if sz > 1 then addDelimLines (nat (sz - 1)) (trimEnd (delim st1)) st1 else st1)
        in st2\<lparr>closed := None\<rparr>)"

definition write_m :: "string \<Rightarrow> MarkdownConvertorState \<Rightarrow> MarkdownConvertorState" where
  "write_m content st =
     (let st1 = flushClose 2 st;
          st2 = (if delim st1 \<noteq> [] \<and> isInBlank st1 then addOutput (delim st1) st1 else st1)
      in if content \<noteq> [] then addOutput content st2 else st2)"

text \<open>\<^verbatim>\<open>text.split('\n')\<close>: the pieces between line feeds, never an empty list.\<close>

fun splitLines :: "string \<Rightarrow> string list" where
  "splitLines [] = [[]]"
| "splitLines (c # cs) =
     (if c = CHR 0x0A then [] # splitLines cs
      else (case splitLines cs of l # ls \<Rightarrow> (c # l) # ls | [] \<Rightarrow> [[c]]))"

fun textLines :: "string list \<Rightarrow> MarkdownConvertorState \<Rightarrow> MarkdownConvertorState" where
  "textLines [] st = st"
| "textLines [l] st = addOutput l (write_m [] st)"
| "textLines (l # ls) st = textLines ls (addOutput newline (addOutput l (write_m [] st)))"

definition text_m :: "string \<Rightarrow> MarkdownConvertorState \<Rightarrow> MarkdownConvertorState" where
  "text_m t st = textLines (splitLines t) st"

definition writeInline :: "InlineText \<Rightarrow> MarkdownConvertorState \<Rightarrow> MarkdownConvertorState" where
  "writeInline inlineText st = st\<lparr>inlineBuffer := inlineBuffer st @ [inlineText]\<rparr>"

definition closeBlock :: "LexicalNode \<Rightarrow> MarkdownConvertorState \<Rightarrow> MarkdownConvertorState" where
  "closeBlock node st = st\<lparr>closed := Some node\<rparr>"

definition close :: "MarkdownConvertorState \<Rightarrow> MarkdownConvertorState" where
  "close st = st\<lparr>closed := None\<rparr>"

section \<open>The prefix-diff reconciler (\<^verbatim>\<open>flushInline\<close>, second revision)\<close>

definition openTags :: "InlineFormat list \<Rightarrow> string" where
  "openTags fs = concat (map openTag fs)"

definition closeTags :: "InlineFormat list \<Rightarrow> string" where
  "closeTags fs = concat (map closeTag (rev fs))"

text \<open>The \<^verbatim>\<open>while\<close> loop that advances \<^verbatim>\<open>common\<close>: it compares \<^verbatim>\<open>type\<close> and
  \<^verbatim>\<open>htmlInline\<close> of the two lists position by position.\<close>

function commonPrefix :: "InlineFormat list \<Rightarrow> InlineFormat list \<Rightarrow> nat \<Rightarrow> nat" where
  "commonPrefix prevFormats fs common =
     (if common < length prevFormats \<and> common < length fs \<and>
         ftype (prevFormats ! common) = ftype (fs ! common) \<and>
         htmlInline (prevFormats ! common) = htmlInline (fs ! common)
      then commonPrefix prevFormats fs (common + 1)
      else common)"
  by pat_completeness auto
termination
proof (relation "measure (\<lambda>(p, f, c). length p - c)")
  show "wf (measure (\<lambda>(p, f, c). length p - c))"
    by simp
next
  fix prevFormats fs :: "InlineFormat list" and common :: nat
  assume "common < length prevFormats \<and> common < length fs \<and>
          ftype (prevFormats ! common) = ftype (fs ! common) \<and>
          htmlInline (prevFormats ! common) = htmlInline (fs ! common)"
  then have "length prevFormats - (common + 1) < length prevFormats - common"
    by arith
  then show "((prevFormats, fs, common + 1), (prevFormats, fs, common))
             \<in> measure (\<lambda>(p, f, c). length p - c)"
    by simp
qed

declare commonPrefix.simps [simp del]

text \<open>The \<^verbatim>\<open>for\<close> loop over the buffer; the pair is \<^verbatim>\<open>(result, prevFormats)\<close>.\<close>

fun flushInlineLoop :: "InlineText list \<Rightarrow> string \<times> InlineFormat list \<Rightarrow> string \<times> InlineFormat list" where
  "flushInlineLoop [] (res, prevFormats) = (res, prevFormats)"
| "flushInlineLoop (r # rs) (res, prevFormats) =
     (let common = commonPrefix prevFormats (formats r) 0;
          toClose = drop common prevFormats;
          res1 = res @ closeTags toClose;
          toOpen = drop common (formats r);
          res2 = res1 @ openTags toOpen;
          res3 = res2 @ itext r
      in flushInlineLoop rs (res3, formats r))"

text \<open>The string \<^verbatim>\<open>flushInline\<close> hands to \<^verbatim>\<open>write\<close>.\<close>

definition flushInlineResult :: "InlineText list \<Rightarrow> string" where
  "flushInlineResult buf =
     (case flushInlineLoop buf ([], []) of (res, prevFormats) \<Rightarrow> res @ closeTags prevFormats)"

definition flushInline :: "MarkdownConvertorState \<Rightarrow> MarkdownConvertorState" where
  "flushInline st = (write_m (flushInlineResult (inlineBuffer st)) st)\<lparr>inlineBuffer := []\<rparr>"

text \<open>
  The same loop with every piece it appends kept apart: an opening tag, a closing tag
  or a run's text, each tag with the format it was taken from. \<open>renderTokens\<close> of the
  trace is the string of \<open>flushInlineResult\<close> (lemma \<open>renderTokens_flushInlineTrace\<close>).
\<close>

datatype InlineToken = OpenTok InlineFormat | CloseTok InlineFormat | TextTok string

fun renderToken :: "InlineToken \<Rightarrow> string" where
  "renderToken (OpenTok f) = openTag f"
| "renderToken (CloseTok f) = closeTag f"
| "renderToken (TextTok s) = s"

definition renderTokens :: "InlineToken list \<Rightarrow> string" where
  "renderTokens ts = concat (map renderToken ts)"

fun flushInlineTraceLoop :: "InlineText list \<Rightarrow> InlineToken list \<times> InlineFormat list \<Rightarrow> InlineToken list \<times> InlineFormat list" where
  "flushInlineTraceLoop [] (res, prevFormats) = (res, prevFormats)"
| "flushInlineTraceLoop (r # rs) (res, prevFormats) =
     (let common = commonPrefix prevFormats (formats r) 0;
          toClose = drop common prevFormats;
          res1 = res @ map CloseTok (rev toClose);
          toOpen = drop common (formats r);
          res2 = res1 @ map OpenTok toOpen;
          res3 = res2 @ [TextTok (itext r)]
      in flushInlineTraceLoop rs (res3, formats r))"

definition flushInlineTrace :: "InlineText list \<Rightarrow> InlineToken list" where
  "flushInlineTrace buf =
     (case flushInlineTraceLoop buf ([], []) of
        (res, prevFormats) \<Rightarrow> res @ map CloseTok (rev prevFormats))"

text \<open>The trace of the loop entered with \<^verbatim>\<open>prevFormats = prev\<close>, as it stands in the
  middle of a buffer, closed at the end as \<^verbatim>\<open>flushInline\<close> closes it.\<close>

definition flushInlineTraceFrom :: "InlineFormat list \<Rightarrow> InlineText list \<Rightarrow> InlineToken list" where
  "flushInlineTraceFrom prev buf =
     (case flushInlineTraceLoop buf ([], prev) of
        (res, prevFormats) \<Rightarrow> res @ map CloseTok (rev prevFormats))"

text \<open>The formats the text conversion creates (the tags are the same in both revisions).\<close>

definition boldFormat :: InlineFormat where
  "boldFormat = \<lparr>ftype = ''bold'', openTag = ''**'', closeTag = ''**'', htmlInline = None\<rparr>"

definition italicFormat :: InlineFormat where
  "italicFormat = \<lparr>ftype = ''italic'', openTag = ''*'', closeTag = ''*'', htmlInline = None\<rparr>"

definition strikethroughFormat :: InlineFormat where
  "strikethroughFormat = \<lparr>ftype = ''strikethrough'', openTag = ''~~'', closeTag = ''~~'', htmlInline = None\<rparr>"

definition highlightFormat :: InlineFormat where
  "highlightFormat = \<lparr>ftype = ''highlight'', openTag = ''<mark>'', closeTag = ''</mark>'', htmlInline = Some True\<rparr>"

definition underlineFormat :: InlineFormat where
  "underlineFormat = \<lparr>ftype = ''underline'', openTag = ''<u>'', closeTag = ''</u>'', htmlInline = Some True\<rparr>"

definition subscriptFormat :: InlineFormat where
  "subscriptFormat = \<lparr>ftype = ''subscript'', openTag = ''<sub>'', closeTag = ''</sub>'', htmlInline = Some True\<rparr>"

definition superscriptFormat :: InlineFormat where
  "superscriptFormat = \<lparr>ftype = ''superscript'', openTag = ''<sup>'', closeTag = ''</sup>'', htmlInline = Some True\<rparr>"

definition codeFormat :: InlineFormat where
  "codeFormat = \<lparr>ftype = ''code'', openTag = ''`'', closeTag = ''`'', htmlInline = None\<rparr>"

section \<open>The unclosed-tag reconciler (\<^verbatim>\<open>getInlineText\<close>, first revision)\<close>

definition isSameFormat :: "InlineFormat \<Rightarrow> InlineFormat \<Rightarrow> bool" where
  "isSameFormat format f =
     (ftype f = ftype format \<and> openTag f = openTag format \<and> htmlInline f = htmlInline format)"

definition hasFormat :: "InlineText option \<Rightarrow> InlineFormat \<Rightarrow> bool" where
  "hasFormat inlineText format =
     (case inlineText of
        None \<Rightarrow> False
      | Some t \<Rightarrow> list_ex (isSameFormat format) (formats t))"

text \<open>\<^verbatim>\<open>inlineBuffer[index]\<close>, \<^verbatim>\<open>undefined\<close> outside the array.\<close>

definition bufferAt :: "InlineText list \<Rightarrow> int \<Rightarrow> InlineText option" where
  "bufferAt buffer i =
     (if 0 \<le> i \<and> i < int (length buffer) then Some (buffer ! nat i) else None)"

text \<open>
  The first loop of \<^verbatim>\<open>process\<close>, over the formats of the run; the triple is
  \<^verbatim>\<open>(applied, unclosedTags, openingTags)\<close>. \<^verbatim>\<open>applied\<close> is a \<^verbatim>\<open>Set\<close> of
  format objects; the model takes a format object to be its four fields.
\<close>

fun processOpen :: "InlineText \<Rightarrow> InlineText option \<Rightarrow> InlineFormat list \<Rightarrow>
    InlineFormat list \<times> InlineFormat list \<times> string \<Rightarrow>
    InlineFormat list \<times> InlineFormat list \<times> string" where
  "processOpen inlineText prevInlineText [] acc = acc"
| "processOpen inlineText prevInlineText (format # rest) (applied, unclosedTags, openingTags) =
     (if hasFormat (Some inlineText) format \<and> format \<notin> set applied then
        (if \<not> hasFormat prevInlineText format \<or> find (isSameFormat format) unclosedTags = None
         then processOpen inlineText prevInlineText rest
                (applied @ [format], unclosedTags @ [format], openingTags @ openTag format)
         else processOpen inlineText prevInlineText rest
                (applied @ [format], unclosedTags, openingTags))
      else processOpen inlineText prevInlineText rest (applied, unclosedTags, openingTags))"

text \<open>
  The inner \<^verbatim>\<open>while (unhandledUnclosedTags.length > i)\<close>; the triple is
  \<^verbatim>\<open>(unclosedTags, closingTagsBefore, closingTagsAfter)\<close>. A tag found among the
  unclosable ones is skipped (\<^verbatim>\<open>continue\<close>) before anything is popped off
  \<^verbatim>\<open>unclosedTags\<close>.
\<close>

function processCloseWhile :: "nat \<Rightarrow> bool \<Rightarrow> bool \<Rightarrow> InlineFormat list \<Rightarrow> InlineFormat list \<Rightarrow>
    InlineFormat list \<times> string \<times> string \<Rightarrow> InlineFormat list \<times> string \<times> string" where
  "processCloseWhile i nodeHasFormat nextNodeHasFormat unclosableTags unhandledUnclosedTags
       (unclosedTags, closingTagsBefore, closingTagsAfter) =
     (if length unhandledUnclosedTags > i then
        (let unclosedTag = last unhandledUnclosedTags;
             unhandled = butlast unhandledUnclosedTags
         in if find (isSameFormat unclosedTag) unclosableTags \<noteq> None
            then processCloseWhile i nodeHasFormat nextNodeHasFormat unclosableTags unhandled
                   (unclosedTags, closingTagsBefore, closingTagsAfter)
            else processCloseWhile i nodeHasFormat nextNodeHasFormat unclosableTags unhandled
                   (butlast unclosedTags,
                    (if \<not> nodeHasFormat then closingTagsBefore @ closeTag unclosedTag
                     else closingTagsBefore),
                    (if nodeHasFormat \<and> \<not> nextNodeHasFormat then closingTagsAfter @ closeTag unclosedTag
                     else closingTagsAfter)))
      else (unclosedTags, closingTagsBefore, closingTagsAfter))"
  by pat_completeness auto
termination
proof (relation "measure (\<lambda>(i, n, x, u, unhandled, acc). length unhandled)")
  show "wf (measure (\<lambda>(i, n, x, u, unhandled, acc). length unhandled))"
    by simp
qed simp_all

declare processCloseWhile.simps [simp del]

text \<open>The outer \<^verbatim>\<open>for (let i = 0; i < unclosedTags.length; i++)\<close>, which ends at its
  \<^verbatim>\<open>break\<close> after the first tag that the run or its successor does not carry.\<close>

function processClose :: "InlineText \<Rightarrow> InlineText option \<Rightarrow> InlineFormat list \<Rightarrow> nat \<Rightarrow>
    InlineFormat list \<Rightarrow> InlineFormat list \<times> string \<times> string" where
  "processClose inlineText nextInlineText unclosableTags i unclosedTags =
     (if i < length unclosedTags then
        (let nodeHasFormat = hasFormat (Some inlineText) (unclosedTags ! i);
             nextNodeHasFormat = hasFormat nextInlineText (unclosedTags ! i)
         in if nodeHasFormat \<and> nextNodeHasFormat
            then processClose inlineText nextInlineText unclosableTags (i + 1) unclosedTags
            else processCloseWhile i nodeHasFormat nextNodeHasFormat unclosableTags unclosedTags
                   (unclosedTags, [], []))
      else (unclosedTags, [], []))"
  by pat_completeness auto
termination
proof (relation "measure (\<lambda>(t, n, u, i, unclosed). length unclosed - i)")
  show "wf (measure (\<lambda>(t, n, u, i, unclosed). length unclosed - i))"
    by simp
next
  fix inlineText :: InlineText and nextInlineText :: "InlineText option"
    and unclosableTags unclosedTags :: "InlineFormat list" and i :: nat
  assume "i < length unclosedTags"
  then have "length unclosedTags - (i + 1) < length unclosedTags - i"
    by arith
  then show "((inlineText, nextInlineText, unclosableTags, i + 1, unclosedTags),
              inlineText, nextInlineText, unclosableTags, i, unclosedTags)
             \<in> measure (\<lambda>(t, n, u, i, unclosed). length unclosed - i)"
    by simp
qed

declare processClose.simps [simp del]

text \<open>\<^verbatim>\<open>process\<close> returns the run's output; the mutated \<^verbatim>\<open>unclosedTags\<close> array is
  returned with it.\<close>

definition process :: "InlineText list \<Rightarrow> InlineText \<Rightarrow> nat \<Rightarrow> InlineFormat list \<Rightarrow> InlineFormat list \<Rightarrow>
    string \<times> InlineFormat list" where
  "process buffer inlineText index unclosedTags unclosableTags =
     (let prevInlineText = bufferAt buffer (int index - 1);
          nextInlineText = bufferAt buffer (int index + 1)
      in case processOpen inlineText prevInlineText (formats inlineText) ([], unclosedTags, []) of
           (applied, unclosed1, openingTags) \<Rightarrow>
             (case processClose inlineText nextInlineText unclosableTags 0 unclosed1 of
                (unclosed2, closingTagsBefore, closingTagsAfter) \<Rightarrow>
                  (closingTagsBefore @ (openingTags @ itext inlineText @ closingTagsAfter), unclosed2)))"

text \<open>\<^verbatim>\<open>inlineBuffer.map((inlineText, index) => process(...))\<close>, with the one
  \<^verbatim>\<open>unclosedTags\<close> array that all calls share.\<close>

fun getInlineTextMap :: "InlineText list \<Rightarrow> nat \<Rightarrow> InlineText list \<Rightarrow> InlineFormat list \<Rightarrow> string list" where
  "getInlineTextMap buffer index [] unclosedTags = []"
| "getInlineTextMap buffer index (inlineText # rest) unclosedTags =
     (case process buffer inlineText index unclosedTags [] of
        (out, unclosedTags') \<Rightarrow> out # getInlineTextMap buffer (index + 1) rest unclosedTags')"

definition getInlineTextOf :: "InlineText list \<Rightarrow> string" where
  "getInlineTextOf buffer =
     (if length buffer = 0 then []
      else concat (getInlineTextMap buffer 0 buffer []))"

definition getInlineText :: "MarkdownConvertorState \<Rightarrow> string" where
  "getInlineText st = getInlineTextOf (inlineBuffer st)"

definition closeInlineText :: "MarkdownConvertorState \<Rightarrow> MarkdownConvertorState" where
  "closeInlineText st = st\<lparr>inlineBuffer := []\<rparr>"

definition flushInlineText :: "MarkdownConvertorState \<Rightarrow> MarkdownConvertorState" where
  "flushInlineText st = closeInlineText (write_m (getInlineText st) st)"

text \<open>
  Well-bracketing of a trace, checked with the stack of the formats that are open: an
  opening tag pushes its format, a closing tag must belong to the format on top of the
  stack and pops it, and nothing may be open at the end.
\<close>

fun wellBracketed :: "InlineFormat list \<Rightarrow> InlineToken list \<Rightarrow> bool" where
  "wellBracketed stack [] = (stack = [])"
| "wellBracketed stack (OpenTok f # ts) = wellBracketed (f # stack) ts"
| "wellBracketed stack (CloseTok f # ts) =
     (case stack of [] \<Rightarrow> False | g # stack' \<Rightarrow> g = f \<and> wellBracketed stack' ts)"
| "wellBracketed stack (TextTok s # ts) = wellBracketed stack ts"

text \<open>An italic format with the alternate tag pair \<^verbatim>\<open>_\<close>; the first revision's
  comment in \<^verbatim>\<open>process\<close> reads \<^verbatim>\<open>Multiple tags might be used for the same format (*, _)\<close>.\<close>

definition italicUnderscoreFormat :: InlineFormat where
  "italicUnderscoreFormat = \<lparr>ftype = ''italic'', openTag = ''_'', closeTag = ''_'', htmlInline = None\<rparr>"

section \<open>The host tree, as the serializer queries it\<close>

text \<open>
  \<^verbatim>\<open>node.getType()\<close>. The built-in conversions are registered under the type names of
  the host's classes; an \<open>ElementNode\<close> or \<open>DecoratorNode\<close> of another kind carries its
  own type name. An \<^verbatim>\<open>AutoLinkNode\<close> is a \<open>LinkNode\<close> whose first field is
  \<open>Some isUnlinked\<close>. Each type guard of the host (\<^verbatim>\<open>$isTextNode\<close>,
  \<^verbatim>\<open>$isParagraphNode\<close>, ...) answers for the constructor of its kind.
\<close>

fun getType :: "LexicalNode \<Rightarrow> string" where
  "getType (TextNode content flags) = ''text''"
| "getType LineBreakNode = ''linebreak''"
| "getType TabNode = ''tab''"
| "getType (ParagraphNode children) = ''paragraph''"
| "getType (HeadingNode level children) = ''heading''"
| "getType (LinkNode auto url title children) = (if auto = None then ''link'' else ''autolink'')"
| "getType (ElementNode ty inline children) = ty"
| "getType (DecoratorNode ty) = ty"

fun getChildren :: "LexicalNode \<Rightarrow> LexicalNode list" where
  "getChildren (ParagraphNode children) = children"
| "getChildren (HeadingNode level children) = children"
| "getChildren (LinkNode auto url title children) = children"
| "getChildren (ElementNode ty inline children) = children"
| "getChildren node = []"

fun isElementNode :: "LexicalNode \<Rightarrow> bool" where
  "isElementNode (ParagraphNode children) = True"
| "isElementNode (HeadingNode level children) = True"
| "isElementNode (LinkNode auto url title children) = True"
| "isElementNode (ElementNode ty inline children) = True"
| "isElementNode node = False"

fun isParagraphNode :: "LexicalNode \<Rightarrow> bool" where
  "isParagraphNode (ParagraphNode children) = True"
| "isParagraphNode node = False"

fun isTabNode :: "LexicalNode \<Rightarrow> bool" where
  "isTabNode TabNode = True"
| "isTabNode node = False"

fun isDecoratorNode :: "LexicalNode \<Rightarrow> bool" where
  "isDecoratorNode (DecoratorNode ty) = True"
| "isDecoratorNode node = False"

text \<open>\<^verbatim>\<open>$isBlockElementNode\<close>: an element that is not inline.\<close>

fun isBlockElementNode :: "LexicalNode \<Rightarrow> bool" where
  "isBlockElementNode (ParagraphNode children) = True"
| "isBlockElementNode (HeadingNode level children) = True"
| "isBlockElementNode (ElementNode ty inline children) = (\<not> inline)"
| "isBlockElementNode node = False"

section \<open>Conversions and conversion maps\<close>

text \<open>
  \<^verbatim>\<open>type MarkdownConversion = {conversion, priority?}\<close>. The conversion function is
  kept as a parameter \<open>'c\<close>: the dispatcher only compares priorities.
\<close>

record 'c MarkdownConversion =
  conversion :: 'c
  priority :: "nat option"

text \<open>\<^verbatim>\<open>Record<NodeType, (node) => MarkdownConversion | null>\<close>\<close>

type_synonym 'c MarkdownConversionMap =
  "string \<Rightarrow> (LexicalNode \<Rightarrow> 'c MarkdownConversion option) option"

text \<open>\<^verbatim>\<open>conversion.priority || 0\<close>\<close>

definition priorityOr0 :: "'c MarkdownConversion \<Rightarrow> nat" where
  "priorityOr0 c = (case priority c of None \<Rightarrow> 0 | Some p \<Rightarrow> p)"

text \<open>
  The \<^verbatim>\<open>for (const conversionMap of this._conversionCollection)\<close> loop of
  \<^verbatim>\<open>convertBlock\<close>; the last argument is the variable \<^verbatim>\<open>conversion\<close>. The collection
  is a \<^verbatim>\<open>Set\<close>, iterated in insertion order: a list.
\<close>

fun convertBlockLoop :: "'c MarkdownConversionMap list \<Rightarrow> LexicalNode \<Rightarrow>
    'c MarkdownConversion option \<Rightarrow> 'c MarkdownConversion option" where
  "convertBlockLoop [] node conv = conv"
| "convertBlockLoop (conversionMap # rest) node conv =
     (case conversionMap (getType node) of
        None \<Rightarrow> convertBlockLoop rest node conv
      | Some getConversion \<Rightarrow>
          (case getConversion node of
             None \<Rightarrow> convertBlockLoop rest node conv
           | Some markdownConversion \<Rightarrow>
               (case conv of
                  Some c \<Rightarrow>
                    (if priorityOr0 c < priorityOr0 markdownConversion
                     then convertBlockLoop rest node (Some markdownConversion)
                     else convertBlockLoop rest node conv)
                | None \<Rightarrow> convertBlockLoop rest node (Some markdownConversion))))"

text \<open>The non-null conversions the maps offer for a node, in registration order.\<close>

definition candidates :: "'c MarkdownConversionMap list \<Rightarrow> LexicalNode \<Rightarrow> 'c MarkdownConversion list" where
  "candidates maps node =
     List.map_filter
       (\<lambda>conversionMap. case conversionMap (getType node) of
            None \<Rightarrow> None
          | Some getConversion \<Rightarrow> getConversion node)
       maps"

section \<open>The built-in conversions\<close>

text \<open>
  The conversion functions of the two default maps, the heading map and an extension's
  own function. A conversion reaches the state's \<^verbatim>\<open>convertBlock\<close> and
  \<^verbatim>\<open>convertInline\<close> through the state it is given; here they are the arguments
  \<open>cb\<close> and \<open>ci\<close>. An extension's own function (\<open>CustomConversion\<close>) is one that
  works on the fields of the state and does not call the dispatcher again.
\<close>

datatype Conversion =
    TextConversion1
  | TextConversion2
  | LineBreakConversion1
  | LineBreakConversion2
  | TabConversion
  | ParagraphConversion
  | LinkConversion
  | HeadingConversion
  | CustomConversion "LexicalNode \<Rightarrow> MarkdownConvertorState \<Rightarrow> MarkdownConvertorState"

text \<open>\<^verbatim>\<open>node.hasFormat(name)\<close> on the flags of a text node, and the \<^verbatim>\<open>formats.push\<close>
  sequence of each revision.\<close>

definition pushIf :: "string list \<Rightarrow> string \<Rightarrow> InlineFormat \<Rightarrow> InlineFormat list" where
  "pushIf flags name format = (if name \<in> set flags then [format] else [])"

definition textFormats1 :: "string list \<Rightarrow> InlineFormat list" where
  "textFormats1 flags =
     pushIf flags ''bold'' boldFormat @
     pushIf flags ''italic'' italicFormat @
     pushIf flags ''strikethrough'' strikethroughFormat @
     pushIf flags ''highlight'' highlightFormat @
     pushIf flags ''underline'' underlineFormat @
     pushIf flags ''subscript'' subscriptFormat @
     pushIf flags ''superscript'' superscriptFormat @
     pushIf flags ''code'' codeFormat"

definition textFormats2 :: "string list \<Rightarrow> InlineFormat list" where
  "textFormats2 flags =
     pushIf flags ''bold'' boldFormat @
     pushIf flags ''strikethrough'' strikethroughFormat @
     pushIf flags ''italic'' italicFormat @
     pushIf flags ''code'' codeFormat @
     pushIf flags ''highlight'' highlightFormat @
     pushIf flags ''underline'' underlineFormat @
     pushIf flags ''subscript'' subscriptFormat @
     pushIf flags ''superscript'' superscriptFormat"

fun textConversion1 :: "LexicalNode \<Rightarrow> MarkdownConvertorState \<Rightarrow> MarkdownConvertorState" where
  "textConversion1 (TextNode content flags) st =
     writeInline \<lparr>itext = content, formats = textFormats1 flags\<rparr> st"
| "textConversion1 node st = st"

fun textConversion2 :: "LexicalNode \<Rightarrow> MarkdownConvertorState \<Rightarrow> MarkdownConvertorState" where
  "textConversion2 (TextNode content flags) st =
     writeInline \<lparr>itext = content, formats = textFormats2 flags\<rparr> st"
| "textConversion2 node st = st"

fun lineBreakConversion1 :: "LexicalNode \<Rightarrow> MarkdownConvertorState \<Rightarrow> MarkdownConvertorState" where
  "lineBreakConversion1 LineBreakNode st = ensureNewLine (flushInlineText st)"
| "lineBreakConversion1 node st = st"

fun lineBreakConversion2 :: "LexicalNode \<Rightarrow> MarkdownConvertorState \<Rightarrow> MarkdownConvertorState" where
  "lineBreakConversion2 LineBreakNode st = ensureNewLine st"
| "lineBreakConversion2 node st = st"

definition tabConversion :: "LexicalNode \<Rightarrow> MarkdownConvertorState \<Rightarrow> MarkdownConvertorState" where
  "tabConversion node st = write_m (replicate 4 (CHR '' '')) st"

fun paragraphConversion :: "(LexicalNode \<Rightarrow> MarkdownConvertorState \<Rightarrow> MarkdownConvertorState) \<Rightarrow>
    LexicalNode \<Rightarrow> MarkdownConvertorState \<Rightarrow> MarkdownConvertorState" where
  "paragraphConversion ci (ParagraphNode children) st =
     (if getStopNewline st then ci (ParagraphNode children) st
      else closeBlock (ParagraphNode children)
             (if children = [] then write_m ''<br>'' st
              else ci (ParagraphNode children) st))"
| "paragraphConversion ci node st = st"

text \<open>\<^verbatim>\<open>title ? `[${text}](${url} "${title}")` : `[${text}](${url})`\<close>\<close>

definition linkText :: "string \<Rightarrow> string \<Rightarrow> string option \<Rightarrow> string" where
  "linkText txt url title =
     (case title of
        None \<Rightarrow> ''['' @ txt @ '']('' @ url @ '')''
      | Some t \<Rightarrow>
          (if t = [] then ''['' @ txt @ '']('' @ url @ '')''
           else ''['' @ txt @ '']('' @ url @ '' '' @ [CHR 0x22] @ t @ [CHR 0x22] @ '')''))"

fun linkConversion :: "(LexicalNode \<Rightarrow> MarkdownConvertorState \<Rightarrow> MarkdownConvertorState) \<Rightarrow>
    LexicalNode \<Rightarrow> MarkdownConvertorState \<Rightarrow> MarkdownConvertorState" where
  "linkConversion cb (LinkNode auto url title children) st =
     (if auto = Some True then fold cb children st
      else
        let st1 = flushInlineText st;
            st2 = fold cb children st1;
            txt = getInlineText st2;
            st3 = closeInlineText st2
        in write_m (linkText txt url title) st3)"
| "linkConversion cb node st = st"

text \<open>\<^verbatim>\<open>'#'.repeat(Number(node.getTag().substring(1)))\<close> is the level's number of
  \<^verbatim>\<open>#\<close>.\<close>

fun headingConversion :: "(LexicalNode \<Rightarrow> MarkdownConvertorState \<Rightarrow> MarkdownConvertorState) \<Rightarrow>
    LexicalNode \<Rightarrow> MarkdownConvertorState \<Rightarrow> MarkdownConvertorState" where
  "headingConversion ci (HeadingNode level children) st =
     closeBlock (HeadingNode level children)
       (ci (HeadingNode level children)
          (write_m (replicate level (CHR ''#'') @ '' '') st))"
| "headingConversion ci node st = st"

text \<open>The two default maps and the heading map of the second revision.\<close>

definition defaultMarkdownConversionMap1 :: "Conversion MarkdownConversionMap" where
  "defaultMarkdownConversionMap1 = map_of
     [(''text'', \<lambda>node. Some \<lparr>conversion = TextConversion1, priority = Some 0\<rparr>),
      (''linebreak'', \<lambda>node. Some \<lparr>conversion = LineBreakConversion1, priority = Some 0\<rparr>),
      (''tab'', \<lambda>node. if \<not> isTabNode node then None
                        else Some \<lparr>conversion = TabConversion, priority = Some 0\<rparr>),
      (''paragraph'', \<lambda>node. Some \<lparr>conversion = ParagraphConversion, priority = Some 0\<rparr>),
      (''link'', \<lambda>node. Some \<lparr>conversion = LinkConversion, priority = Some 0\<rparr>),
      (''heading'', \<lambda>node. Some \<lparr>conversion = HeadingConversion, priority = Some 0\<rparr>)]"

definition defaultMarkdownConversionMap2 :: "Conversion MarkdownConversionMap" where
  "defaultMarkdownConversionMap2 = map_of
     [(''text'', \<lambda>node. Some \<lparr>conversion = TextConversion2, priority = Some 0\<rparr>),
      (''linebreak'', \<lambda>node. Some \<lparr>conversion = LineBreakConversion2, priority = Some 0\<rparr>),
      (''tab'', \<lambda>node. if \<not> isTabNode node then None
                        else Some \<lparr>conversion = TabConversion, priority = Some 0\<rparr>),
      (''paragraph'', \<lambda>node. Some \<lparr>conversion = ParagraphConversion, priority = Some 0\<rparr>)]"

definition headingMarkdownConversionMap :: "Conversion MarkdownConversionMap" where
  "headingMarkdownConversionMap = map_of
     [(''heading'', \<lambda>node. Some \<lparr>conversion = HeadingConversion, priority = Some 0\<rparr>)]"

section \<open>The dispatcher\<close>

datatype Revision = Revision1 | Revision2

text \<open>
  \<^verbatim>\<open>convertInline\<close>, with the state's \<^verbatim>\<open>convertBlock\<close> as the argument \<open>cb\<close>. The first
  revision flushes the inline buffer before and after the region, the second after it.
\<close>

definition convertInlineWith :: "Revision \<Rightarrow> (LexicalNode \<Rightarrow> MarkdownConvertorState \<Rightarrow> MarkdownConvertorState) \<Rightarrow>
    LexicalNode \<Rightarrow> MarkdownConvertorState \<Rightarrow> MarkdownConvertorState" where
  "convertInlineWith rv cb parent st =
     (case rv of
        Revision1 \<Rightarrow>
          flushInlineText
            (if isElementNode parent then fold cb (getChildren parent) (flushInlineText st)
             else cb parent (flushInlineText st))
      | Revision2 \<Rightarrow>
          flushInline
            (if isElementNode parent then fold cb (getChildren parent) st
             else cb parent st))"

text \<open>
  \<^verbatim>\<open>conversion.conversion(node, this)\<close>. Of the state \<^verbatim>\<open>this\<close> a conversion uses,
  besides the fields, the methods \<^verbatim>\<open>convertBlock\<close> (the argument \<open>cb\<close>) and
  \<^verbatim>\<open>convertInline\<close> (which is \<open>convertInlineWith rv cb\<close>).
\<close>

fun runConversion :: "Revision \<Rightarrow> (LexicalNode \<Rightarrow> MarkdownConvertorState \<Rightarrow> MarkdownConvertorState) \<Rightarrow>
    Conversion \<Rightarrow> LexicalNode \<Rightarrow> MarkdownConvertorState \<Rightarrow> MarkdownConvertorState" where
  "runConversion rv cb TextConversion1 node st = textConversion1 node st"
| "runConversion rv cb TextConversion2 node st = textConversion2 node st"
| "runConversion rv cb LineBreakConversion1 node st = lineBreakConversion1 node st"
| "runConversion rv cb LineBreakConversion2 node st = lineBreakConversion2 node st"
| "runConversion rv cb TabConversion node st = tabConversion node st"
| "runConversion rv cb ParagraphConversion node st = paragraphConversion (convertInlineWith rv cb) node st"
| "runConversion rv cb LinkConversion node st = linkConversion cb node st"
| "runConversion rv cb HeadingConversion node st = headingConversion (convertInlineWith rv cb) node st"
| "runConversion rv cb (CustomConversion f) node st = f node st"

text \<open>
  \<^verbatim>\<open>convertBlock\<close>: the loop picks the conversion, which is then applied. A conversion
  calls \<^verbatim>\<open>convertBlock\<close> on children of its node only (\<open>runConversion_cong\<close>), so the
  recursion descends the tree.
\<close>

lemma runConversion_cong [fundef_cong]:
  assumes "rv = rv'" "c = c'" "node = node'" "st = st'"
    and "\<And>child s. child \<in> set (getChildren node') \<Longrightarrow> cb child s = cb' child s"
  shows "runConversion rv cb c node st = runConversion rv' cb' c' node' st'"
proof -
  have f: "fold cb (getChildren node') s = fold cb' (getChildren node') s" for s
    using assms(5) by (intro fold_cong) auto
  have i: "convertInlineWith rv' cb node' s = convertInlineWith rv' cb' node' s"
    if "isElementNode node'" for s
    using f that by (simp add: convertInlineWith_def split: Revision.splits)
  have p: "paragraphConversion (convertInlineWith rv' cb) node' st' =
           paragraphConversion (convertInlineWith rv' cb') node' st'"
    using i by (cases node') simp_all
  have h: "headingConversion (convertInlineWith rv' cb) node' st' =
           headingConversion (convertInlineWith rv' cb') node' st'"
    using i by (cases node') simp_all
  have l: "linkConversion cb node' st' = linkConversion cb' node' st'"
    using f by (cases node') (simp_all add: Let_def)
  show ?thesis
    using assms(1-4) p h l by (cases c') simp_all
qed

lemma size_getChildren: "child \<in> set (getChildren node) \<Longrightarrow> size child < size node"
  by (cases node) (auto simp add: less_Suc_eq_le intro: size_list_estimation')

function convertBlock :: "Revision \<Rightarrow> Conversion MarkdownConversionMap list \<Rightarrow>
    LexicalNode \<Rightarrow> MarkdownConvertorState \<Rightarrow> MarkdownConvertorState" where
  "convertBlock rv maps node st =
     (case convertBlockLoop maps node None of
        Some c \<Rightarrow> runConversion rv (convertBlock rv maps) (conversion c) node st
      | None \<Rightarrow> st)"
  by pat_completeness auto
termination
proof (relation "measure (\<lambda>(rv, maps, node, st). size node)")
  show "wf (measure (\<lambda>(rv, maps, node, st). size node))"
    by simp
qed (simp add: size_getChildren)

declare convertBlock.simps [simp del]

definition convertInline :: "Revision \<Rightarrow> Conversion MarkdownConversionMap list \<Rightarrow>
    LexicalNode \<Rightarrow> MarkdownConvertorState \<Rightarrow> MarkdownConvertorState" where
  "convertInline rv maps parent st = convertInlineWith rv (convertBlock rv maps) parent st"

definition convertNode :: "Revision \<Rightarrow> Conversion MarkdownConversionMap list \<Rightarrow>
    LexicalNode \<Rightarrow> MarkdownConvertorState \<Rightarrow> MarkdownConvertorState" where
  "convertNode rv maps parent st = fold (convertBlock rv maps) (getChildren parent) st"

text \<open>\<^verbatim>\<open>wrapBlock\<close>; \<^verbatim>\<open>firstDelim || delim\<close> takes \<^verbatim>\<open>delim\<close> for \<^verbatim>\<open>null\<close> and for the
  empty string.\<close>

definition wrapBlock :: "string \<Rightarrow> string option \<Rightarrow> LexicalNode \<Rightarrow>
    (MarkdownConvertorState \<Rightarrow> MarkdownConvertorState) \<Rightarrow>
    MarkdownConvertorState \<Rightarrow> MarkdownConvertorState" where
  "wrapBlock dl firstDelim node fn st =
     (let prevDelim = getDelim st;
          st1 = write_m (case firstDelim of None \<Rightarrow> dl | Some fd \<Rightarrow> if fd = [] then dl else fd) st;
          st2 = setDelim (getDelim st1 @ dl) st1;
          st3 = fn st2;
          st4 = setDelim prevDelim st3
      in closeBlock node st4)"

text \<open>The module functions \<^verbatim>\<open>convertList\<close> and \<^verbatim>\<open>convertTableCell\<close>.\<close>

fun convertListItems :: "Revision \<Rightarrow> Conversion MarkdownConversionMap list \<Rightarrow> LexicalNode \<Rightarrow> string \<Rightarrow>
    (nat \<Rightarrow> string) \<Rightarrow> nat \<Rightarrow> LexicalNode list \<Rightarrow>
    MarkdownConvertorState \<Rightarrow> MarkdownConvertorState" where
  "convertListItems rv maps node dl firstDelimFn index [] st = st"
| "convertListItems rv maps node dl firstDelimFn index (child # rest) st =
     convertListItems rv maps node dl firstDelimFn (index + 1) rest
       (wrapBlock dl (Some (firstDelimFn index)) node (convertBlock rv maps child)
          (if index \<noteq> 0 then flushClose 1 st else st))"

definition convertList :: "Revision \<Rightarrow> Conversion MarkdownConversionMap list \<Rightarrow>
    MarkdownConvertorState \<Rightarrow> LexicalNode \<Rightarrow> string \<Rightarrow> (nat \<Rightarrow> string) \<Rightarrow>
    MarkdownConvertorState" where
  "convertList rv maps st node dl firstDelimFn =
     (let st1 = (case getClosed st of
                   Some c \<Rightarrow> if getType c = getType node then flushClose 3 st else flushClose 1 st
                 | None \<Rightarrow> flushClose 1 st)
      in convertListItems rv maps node dl firstDelimFn 0 (getChildren node) st1)"

fun convertTableCellChild :: "Revision \<Rightarrow> Conversion MarkdownConversionMap list \<Rightarrow>
    LexicalNode \<Rightarrow> MarkdownConvertorState \<Rightarrow> MarkdownConvertorState" where
  "convertTableCellChild rv maps child st =
     (if isParagraphNode child then close (convertBlock rv maps child st)
      else if isBlockElementNode child \<or> isDecoratorNode child then close st
      else convertInline rv maps child st)"

definition convertTableCell :: "Revision \<Rightarrow> Conversion MarkdownConversionMap list \<Rightarrow>
    MarkdownConvertorState \<Rightarrow> LexicalNode \<Rightarrow> MarkdownConvertorState" where
  "convertTableCell rv maps st node =
     setStopNewline False
       (fold (convertTableCellChild rv maps) (getChildren node) (setStopNewline True st))"

text \<open>
  \<^verbatim>\<open>createGenerateMarkdownFromNode(...maps)(node)\<close>: a new state on the default map
  followed by the given maps.
\<close>

definition defaultMarkdownConversionMap :: "Revision \<Rightarrow> Conversion MarkdownConversionMap" where
  "defaultMarkdownConversionMap rv =
     (case rv of Revision1 \<Rightarrow> defaultMarkdownConversionMap1
               | Revision2 \<Rightarrow> defaultMarkdownConversionMap2)"

definition createGenerateMarkdownFromNode :: "Revision \<Rightarrow> Conversion MarkdownConversionMap list \<Rightarrow>
    LexicalNode \<Rightarrow> string" where
  "createGenerateMarkdownFromNode rv markdownConversionCollection node =
     getResult (convertNode rv (defaultMarkdownConversionMap rv # markdownConversionCollection) node newState)"

section \<open>Collections used in the statements\<close>

text \<open>
  The collection \<^verbatim>\<open>createGenerateMarkdownFromNode\<close> builds when the first revision is
  given no map and the second its \<^verbatim>\<open>headingMarkdownConversionMap\<close>.
\<close>

definition builtinCollection :: "Revision \<Rightarrow> Conversion MarkdownConversionMap list" where
  "builtinCollection rv =
     (case rv of
        Revision1 \<Rightarrow> defaultMarkdownConversionMap Revision1 # []
      | Revision2 \<Rightarrow> defaultMarkdownConversionMap Revision2 # [headingMarkdownConversionMap])"

text \<open>Three extension maps for a node type \<^verbatim>\<open>X\<close>: one without a priority, two of
  priority 3.\<close>

definition lowPriorityMap :: "Conversion MarkdownConversionMap" where
  "lowPriorityMap = map_of
     [(''X'', \<lambda>node. Some \<lparr>conversion = LineBreakConversion2, priority = None\<rparr>)]"

definition highPriorityMap :: "Conversion MarkdownConversionMap" where
  "highPriorityMap = map_of
     [(''X'', \<lambda>node. Some \<lparr>conversion = TabConversion, priority = Some 3\<rparr>)]"

definition tiedPriorityMap :: "Conversion MarkdownConversionMap" where
  "tiedPriorityMap = map_of
     [(''X'', \<lambda>node. Some \<lparr>conversion = TextConversion2, priority = Some 3\<rparr>)]"

text \<open>Whether a heading stands in the tree of a node.\<close>

fun containsHeading :: "LexicalNode \<Rightarrow> bool" where
  "containsHeading (HeadingNode level children) = True"
| "containsHeading (ParagraphNode children) = list_ex containsHeading children"
| "containsHeading (LinkNode auto url title children) = list_ex containsHeading children"
| "containsHeading (ElementNode ty inline children) = list_ex containsHeading children"
| "containsHeading node = False"

section \<open>Properties of the serialization state\<close>

lemma addOutput_fields [simp]:
  "result (addOutput out st) = result st @ out"
  "delim (addOutput out st) = delim st"
  "closed (addOutput out st) = closed st"
  "stopNewline (addOutput out st) = stopNewline st"
  "inlineBuffer (addOutput out st) = inlineBuffer st"
  by (simp_all add: addOutput_def)

lemma addDelimLines_fields [simp]:
  "delim (addDelimLines n d st) = delim st"
  "closed (addDelimLines n d st) = closed st"
  "stopNewline (addDelimLines n d st) = stopNewline st"
  "inlineBuffer (addDelimLines n d st) = inlineBuffer st"
  by (induction n arbitrary: st) simp_all

lemma addDelimLines_result:
  "result (addDelimLines n d st) = result st @ concat (replicate n (d @ newline))"
  by (induction n arbitrary: st) simp_all

lemma isInBlank_addOutput_newline [simp]: "isInBlank (addOutput newline st)"
  by (simp add: isInBlank_def newline_def)

text \<open>
  Claim C8, as amended. Two calls of \<^verbatim>\<open>ensureNewLine\<close> in a row leave the state one
  call leaves, and one call appends a single line feed when the output is not empty and
  does not end in a line feed, and nothing otherwise. So the two calls together append at
  most one line feed, and the second call never appends.
\<close>

theorem ensureNewLine_twice:
  "ensureNewLine (ensureNewLine st) = ensureNewLine st \<and>
   result (ensureNewLine st) = (if isInBlank st then result st else result st @ newline)"
  by (simp add: ensureNewLine_def)

text \<open>
  Claim C8 as stated fails on the new state: its output is empty, both calls return at
  once, and no line feed is appended at all.
\<close>

theorem ensureNewLine_twice_counterexample:
  "result (ensureNewLine (ensureNewLine newState)) \<noteq> result newState @ newline"
  by (simp add: ensureNewLine_def isInBlank_def newState_def newline_def)

text \<open>
  Claim C3, as amended. With blank-line suppression off, \<^verbatim>\<open>flushClose\<close> leaves the
  pending-close marker cleared for every size, whether or not a close was pending; with
  no close pending it changes nothing at all. With suppression on it returns at its
  guard and changes nothing, so a pending marker stays pending.
\<close>

theorem flushClose_closed:
  "(\<not> stopNewline st \<longrightarrow> closed (flushClose sz st) = None) \<and>
   (closed st = None \<longrightarrow> flushClose sz st = st) \<and>
   (stopNewline st \<longrightarrow> flushClose sz st = st)"
  by (simp add: flushClose_def Let_def)

theorem flushClose_closed_witness:
  "closed (flushClose 2 (newState\<lparr>closed := Some LineBreakNode\<rparr>)) = None \<and>
   flushClose 2 newState = newState \<and>
   flushClose 2 (newState\<lparr>closed := Some LineBreakNode, stopNewline := True\<rparr>)
     = newState\<lparr>closed := Some LineBreakNode, stopNewline := True\<rparr>"
  using flushClose_closed [of "newState\<lparr>closed := Some LineBreakNode\<rparr>" 2]
        flushClose_closed [of newState 2]
        flushClose_closed [of "newState\<lparr>closed := Some LineBreakNode, stopNewline := True\<rparr>" 2]
  by (simp add: newState_def)

text \<open>
  Claim C3 as stated fails when suppression is on and a close is pending: the marker is
  still set after the call.
\<close>

theorem flushClose_closed_counterexample:
  "closed (flushClose 2 (newState\<lparr>closed := Some LineBreakNode, stopNewline := True\<rparr>)) \<noteq> None"
  by (simp add: flushClose_def newState_def)

section \<open>Properties of the prefix-diff reconciler\<close>

lemma commonPrefix_Nil [simp]: "commonPrefix [] fs 0 = 0" "commonPrefix p [] 0 = 0"
  by (simp_all add: commonPrefix.simps)




lemma flushInlineTraceLoop_acc:
  "flushInlineTraceLoop buf (res, prev) =
     (res @ fst (flushInlineTraceLoop buf ([], prev)), snd (flushInlineTraceLoop buf ([], prev)))"
proof (induction buf arbitrary: res prev)
  case Nil
  then show ?case by simp
next
  case (Cons r rs)
  define c where "c = commonPrefix prev (formats r) 0"
  define step where "step = map CloseTok (rev (drop c prev)) @ map OpenTok (drop c (formats r)) @ [TextTok (itext r)]"
  have "flushInlineTraceLoop (r # rs) (res, prev) = flushInlineTraceLoop rs (res @ step, formats r)"
    by (simp add: Let_def c_def step_def)
  also have "\<dots> = ((res @ step) @ fst (flushInlineTraceLoop rs ([], formats r)),
                     snd (flushInlineTraceLoop rs ([], formats r)))"
    by (rule Cons.IH)
  finally have a: "flushInlineTraceLoop (r # rs) (res, prev) =
      (res @ step @ fst (flushInlineTraceLoop rs ([], formats r)),
       snd (flushInlineTraceLoop rs ([], formats r)))"
    by simp
  have "flushInlineTraceLoop (r # rs) ([], prev) = flushInlineTraceLoop rs ([] @ step, formats r)"
    by (simp add: Let_def c_def step_def)
  also have "\<dots> = (([] @ step) @ fst (flushInlineTraceLoop rs ([], formats r)),
                     snd (flushInlineTraceLoop rs ([], formats r)))"
    by (rule Cons.IH)
  finally have b: "flushInlineTraceLoop (r # rs) ([], prev) =
      (step @ fst (flushInlineTraceLoop rs ([], formats r)),
       snd (flushInlineTraceLoop rs ([], formats r)))"
    by simp
  show ?case
    unfolding a b by simp
qed

lemma flushInlineTraceFrom_Nil [simp]:
  "flushInlineTraceFrom prev [] = map CloseTok (rev prev)"
  by (simp add: flushInlineTraceFrom_def)

lemma flushInlineTraceFrom_Cons:
  "flushInlineTraceFrom prev (r # rs) =
     map CloseTok (rev (drop (commonPrefix prev (formats r) 0) prev)) @
     map OpenTok (drop (commonPrefix prev (formats r) 0) (formats r)) @
     TextTok (itext r) # flushInlineTraceFrom (formats r) rs"
proof -
  define c where "c = commonPrefix prev (formats r) 0"
  define step where "step = map CloseTok (rev (drop c prev)) @ map OpenTok (drop c (formats r)) @ [TextTok (itext r)]"
  have "flushInlineTraceLoop (r # rs) ([], prev) = flushInlineTraceLoop rs (step, formats r)"
    by (simp add: Let_def c_def step_def)
  also have "\<dots> = (step @ fst (flushInlineTraceLoop rs ([], formats r)),
                     snd (flushInlineTraceLoop rs ([], formats r)))"
    by (rule flushInlineTraceLoop_acc)
  finally show ?thesis
    by (simp add: flushInlineTraceFrom_def c_def step_def split: prod.splits)
qed

lemma flushInlineTrace_From: "flushInlineTrace buf = flushInlineTraceFrom [] buf"
  by (simp add: flushInlineTrace_def flushInlineTraceFrom_def)








lemma renderTokens_simps [simp]:
  "renderTokens [] = []"
  "renderTokens (t # ts) = renderToken t @ renderTokens ts"
  "renderTokens (ts @ us) = renderTokens ts @ renderTokens us"
  "renderTokens (map OpenTok fs) = openTags fs"
  "renderTokens (map CloseTok (rev fs)) = closeTags fs"
  by (simp_all add: renderTokens_def openTags_def closeTags_def comp_def)





lemma count_list_map_OpenTok [simp]:
  "count_list (map OpenTok fs) (OpenTok f) = count_list fs f"
  "count_list (map OpenTok fs) (CloseTok f) = 0"
  "count_list (map CloseTok fs) (CloseTok f) = count_list fs f"
  "count_list (map CloseTok fs) (OpenTok f) = 0"
  by (induction fs) simp_all


lemma commonPrefix_same:
  "c \<le> k \<Longrightarrow> k < commonPrefix a b c \<Longrightarrow>
     k < length a \<and> k < length b \<and> ftype (a ! k) = ftype (b ! k) \<and>
     htmlInline (a ! k) = htmlInline (b ! k)"
proof (induction a b c rule: commonPrefix.induct)
  case (1 a b c)
  show ?case
  proof (cases "c < length a \<and> c < length b \<and> ftype (a ! c) = ftype (b ! c) \<and>
                htmlInline (a ! c) = htmlInline (b ! c)")
    case True
    then have eq: "commonPrefix a b c = commonPrefix a b (c + 1)"
      by (subst commonPrefix.simps) simp
    show ?thesis
    proof (cases "k = c")
      case True
      with \<open>c < length a \<and> _\<close> show ?thesis by simp
    next
      case False
      with "1.prems" have "c + 1 \<le> k" by simp
      moreover have "k < commonPrefix a b (c + 1)"
        using "1.prems" eq by simp
      ultimately show ?thesis
        using "1.IH" True by blast
    qed
  next
    case False
    then have "commonPrefix a b c = c"
      by (subst commonPrefix.simps) auto
    with "1.prems" show ?thesis by simp
  qed
qed

lemma wellBracketed_open:
  "wellBracketed stack (map OpenTok fs @ ts) = wellBracketed (rev fs @ stack) ts"
  by (induction fs arbitrary: stack) simp_all

lemma wellBracketed_close:
  "wellBracketed (fs @ stack) (map CloseTok fs @ ts) = wellBracketed stack ts"
  by (induction fs) simp_all

text \<open>
  On a buffer whose formats are determined by \<^verbatim>\<open>type\<close> and \<^verbatim>\<open>htmlInline\<close> (as the
  formats of the text conversion are), the stack of open formats is \<^verbatim>\<open>prevFormats\<close>
  after every run, and the trace of \<^verbatim>\<open>flushInline\<close> is well-bracketed.
\<close>

lemma wellBracketed_flushInlineTraceFrom:
  assumes "\<forall>f\<in>set prev \<union> (\<Union>r\<in>set buf. set (formats r)).
           \<forall>g\<in>set prev \<union> (\<Union>r\<in>set buf. set (formats r)).
             ftype f = ftype g \<and> htmlInline f = htmlInline g \<longrightarrow> f = g"
  shows "wellBracketed (rev prev) (flushInlineTraceFrom prev buf)"
  using assms
proof (induction buf arbitrary: prev)
  case Nil
  show ?case
    using wellBracketed_close [of "rev prev" "[]" "[]"] by simp
next
  case (Cons r rs)
  define c where "c = commonPrefix prev (formats r) 0"
  have len: "c \<le> length prev" "c \<le> length (formats r)"
    using commonPrefix_same [of 0 "c - 1" prev "formats r"]
    by (cases c; simp add: c_def)+
  have "take c prev = take c (formats r)"
  proof (rule nth_equalityI)
    show "length (take c prev) = length (take c (formats r))"
      using len by simp
  next
    fix k assume "k < length (take c prev)"
    then have k: "k < c" by simp
    then have s: "k < length prev \<and> k < length (formats r) \<and>
                  ftype (prev ! k) = ftype (formats r ! k) \<and>
                  htmlInline (prev ! k) = htmlInline (formats r ! k)"
      using commonPrefix_same [of 0 k prev "formats r"] by (simp add: c_def)
    then have "prev ! k \<in> set prev" "formats r ! k \<in> set (formats r)"
      by simp_all
    with s Cons.prems have "prev ! k = formats r ! k"
      by auto
    with k s show "take c prev ! k = take c (formats r) ! k"
      by simp
  qed
  then have st: "rev (drop c (formats r)) @ rev (take c prev) = rev (formats r)"
    by (metis append_take_drop_id rev_append)
  have prevsplit: "rev prev = rev (drop c prev) @ rev (take c prev)"
    by (metis append_take_drop_id rev_append)
  have ih: "wellBracketed (rev (formats r)) (flushInlineTraceFrom (formats r) rs)"
    using Cons.prems by (intro Cons.IH) auto
  have "wellBracketed (rev prev) (flushInlineTraceFrom prev (r # rs)) =
        wellBracketed (rev (drop c prev) @ rev (take c prev))
          (map CloseTok (rev (drop c prev)) @
           (map OpenTok (drop c (formats r)) @
            TextTok (itext r) # flushInlineTraceFrom (formats r) rs))"
    by (simp add: flushInlineTraceFrom_Cons c_def [symmetric] prevsplit [symmetric])
  also have "\<dots> = wellBracketed (rev (take c prev))
          (map OpenTok (drop c (formats r)) @
            TextTok (itext r) # flushInlineTraceFrom (formats r) rs)"
    by (rule wellBracketed_close)
  also have "\<dots> = wellBracketed (rev (drop c (formats r)) @ rev (take c prev))
          (TextTok (itext r) # flushInlineTraceFrom (formats r) rs)"
    by (rule wellBracketed_open)
  also have "\<dots> = wellBracketed (rev (formats r)) (flushInlineTraceFrom (formats r) rs)"
    by (simp add: st)
  finally show ?case
    using ih by simp
qed

lemma wellBracketed_flushInlineTrace:
  assumes "\<forall>f\<in>(\<Union>r\<in>set buf. set (formats r)). \<forall>g\<in>(\<Union>r\<in>set buf. set (formats r)).
             ftype f = ftype g \<and> htmlInline f = htmlInline g \<longrightarrow> f = g"
  shows "wellBracketed [] (flushInlineTrace buf)"
  using wellBracketed_flushInlineTraceFrom [of "[]" buf] assms
  by (simp add: flushInlineTrace_From)

text \<open>
  Claim C5 at its failing input. The run \<^verbatim>\<open>a\<close> is italic with the tags \<^verbatim>\<open>*\<close>, the run
  \<^verbatim>\<open>b\<close> italic with the tags \<^verbatim>\<open>_\<close>. \<open>isSameFormat\<close> of the first revision tells the
  two formats apart, and \<^verbatim>\<open>getInlineText\<close> closes the one and opens the other. The
  prefix loop of \<^verbatim>\<open>flushInline\<close> compares \<^verbatim>\<open>type\<close> and \<^verbatim>\<open>htmlInline\<close> only: it
  counts the two as one common format and emits no tag between the runs.
\<close>

theorem flushInline_openTag_not_compared:
  "\<not> isSameFormat italicFormat italicUnderscoreFormat \<and>
   commonPrefix [italicFormat] [italicUnderscoreFormat] 0 = 1 \<and>
   flushInlineResult [\<lparr>itext = ''a'', formats = [italicFormat]\<rparr>,
                      \<lparr>itext = ''b'', formats = [italicUnderscoreFormat]\<rparr>] = ''*ab_'' \<and>
   getInlineTextOf [\<lparr>itext = ''a'', formats = [italicFormat]\<rparr>,
                    \<lparr>itext = ''b'', formats = [italicUnderscoreFormat]\<rparr>] = ''*a*_b_''"
  by code_simp

text \<open>
  Claim C4 at its failing input, the buffer of claim C5: the trace of \<^verbatim>\<open>flushInline\<close>
  opens the \<^verbatim>\<open>*\<close> format and closes the \<^verbatim>\<open>_\<close> format, so the opening tag \<^verbatim>\<open>*\<close>
  has no matching closing tag in the output \<^verbatim>\<open>*ab_\<close>. \<^verbatim>\<open>getInlineText\<close> brackets
  the same buffer as \<^verbatim>\<open>*a*_b_\<close>.
\<close>

theorem flushInline_not_wellBracketed:
  "flushInlineTrace [\<lparr>itext = ''a'', formats = [italicFormat]\<rparr>,
                     \<lparr>itext = ''b'', formats = [italicUnderscoreFormat]\<rparr>] =
     [OpenTok italicFormat, TextTok ''a'', TextTok ''b'', CloseTok italicUnderscoreFormat] \<and>
   \<not> wellBracketed []
       (flushInlineTrace [\<lparr>itext = ''a'', formats = [italicFormat]\<rparr>,
                          \<lparr>itext = ''b'', formats = [italicUnderscoreFormat]\<rparr>]) \<and>
   renderTokens
       (flushInlineTrace [\<lparr>itext = ''a'', formats = [italicFormat]\<rparr>,
                          \<lparr>itext = ''b'', formats = [italicUnderscoreFormat]\<rparr>]) = ''*ab_'' \<and>
   getInlineTextOf [\<lparr>itext = ''a'', formats = [italicFormat]\<rparr>,
                    \<lparr>itext = ''b'', formats = [italicUnderscoreFormat]\<rparr>] = ''*a*_b_''"
  by code_simp

section \<open>Properties of the dispatcher\<close>

lemma candidates_Nil [simp]: "candidates [] node = []"
  by (simp add: candidates_def)

lemma candidates_Cons:
  "candidates (m # ms) node =
     (case m (getType node) of
        None \<Rightarrow> candidates ms node
      | Some g \<Rightarrow> (case g node of None \<Rightarrow> candidates ms node | Some c \<Rightarrow> c # candidates ms node))"
  by (simp add: candidates_def split: option.splits)

lemma set_candidates:
  "set (candidates maps node) =
     {c. \<exists>m\<in>set maps. \<exists>g. m (getType node) = Some g \<and> g node = Some c}"
  by (induction maps) (auto simp add: candidates_Cons split: option.splits)

text \<open>The loop keeps the first of the conversions of highest priority.\<close>

lemma convertBlockLoop_Some:
  assumes "\<forall>x\<in>set pre. priorityOr0 x < priorityOr0 c"
    and "\<forall>x\<in>set mid. priorityOr0 x \<le> priorityOr0 c"
  shows "\<exists>pre' c' post'.
           pre @ c # mid @ candidates maps node = pre' @ c' # post' \<and>
           (\<forall>x\<in>set pre'. priorityOr0 x < priorityOr0 c') \<and>
           (\<forall>x\<in>set post'. priorityOr0 x \<le> priorityOr0 c') \<and>
           convertBlockLoop maps node (Some c) = Some c'"
  using assms
proof (induction maps arbitrary: pre c mid)
  case Nil
  then show ?case by auto
next
  case (Cons m ms)
  show ?case
  proof (cases "m (getType node)")
    case None
    then show ?thesis
      using Cons.IH [OF Cons.prems] by (simp add: candidates_Cons)
  next
    case (Some g)
    show ?thesis
    proof (cases "g node")
      case None
      then show ?thesis
        using Some Cons.IH [OF Cons.prems] by (simp add: candidates_Cons)
    next
      case mc: (Some mc)
      show ?thesis
      proof (cases "priorityOr0 c < priorityOr0 mc")
        case True
        have a: "\<forall>x\<in>set (pre @ c # mid). priorityOr0 x < priorityOr0 mc"
          using Cons.prems True by auto
        have b: "\<forall>x\<in>set ([]::Conversion MarkdownConversion list). priorityOr0 x \<le> priorityOr0 mc"
          by simp
        from Cons.IH [of "pre @ c # mid" mc "[]"] a
        show ?thesis
          using Some mc True by (simp add: candidates_Cons)
      next
        case False
        have b: "\<forall>x\<in>set (mid @ [mc]). priorityOr0 x \<le> priorityOr0 c"
          using Cons.prems False by auto
        from Cons.IH [of pre c "mid @ [mc]"] Cons.prems(1) b
        show ?thesis
          using Some mc False by (simp add: candidates_Cons)
      qed
    qed
  qed
qed

lemma convertBlockLoop_None:
  "candidates maps node = [] \<Longrightarrow> convertBlockLoop maps node None = None"
  by (induction maps) (auto simp add: candidates_Cons split: option.splits)

lemma convertBlockLoop_first_highest:
  assumes "candidates maps node \<noteq> []"
  shows "\<exists>pre c post.
           candidates maps node = pre @ c # post \<and>
           (\<forall>x\<in>set pre. priorityOr0 x < priorityOr0 c) \<and>
           (\<forall>x\<in>set post. priorityOr0 x \<le> priorityOr0 c) \<and>
           convertBlockLoop maps node None = Some c"
  using assms
proof (induction maps)
  case Nil
  then show ?case by simp
next
  case (Cons m ms)
  show ?case
  proof (cases "m (getType node)")
    case None
    then show ?thesis
      using Cons by (simp add: candidates_Cons)
  next
    case (Some g)
    show ?thesis
    proof (cases "g node")
      case None
      then show ?thesis
        using Some Cons by (simp add: candidates_Cons)
    next
      case mc: (Some mc)
      from convertBlockLoop_Some [of "[]" mc "[]" ms node]
      show ?thesis
        using Some mc by (simp add: candidates_Cons)
    qed
  qed
qed

lemma find_after_prefix:
  "\<forall>x\<in>set pre. \<not> P x \<Longrightarrow> P c \<Longrightarrow> find P (pre @ c # post) = Some c"
  by (induction pre) simp_all

lemma find_first_highest:
  assumes "cs = pre @ c # post"
    and "\<forall>x\<in>set pre. priorityOr0 x < priorityOr0 c"
    and "\<forall>x\<in>set post. priorityOr0 x \<le> priorityOr0 c"
  shows "find (\<lambda>c. \<forall>c'\<in>set cs. priorityOr0 c' \<le> priorityOr0 c) cs = Some c"
proof -
  let ?P = "\<lambda>c. \<forall>c'\<in>set cs. priorityOr0 c' \<le> priorityOr0 c"
  have "\<forall>x\<in>set pre. \<not> ?P x"
    using assms(1,2) by (auto simp add: not_le)
  moreover have "?P c"
    using assms by (auto intro: less_imp_le)
  ultimately have "find ?P (pre @ c # post) = Some c"
    by (rule find_after_prefix)
  then show ?thesis
    using assms(1) by simp
qed

text \<open>What the loop picks: the first of the candidates of highest priority.\<close>

lemma convertBlockLoop_find:
  "convertBlockLoop maps node None =
     find (\<lambda>c. \<forall>c'\<in>set (candidates maps node). priorityOr0 c' \<le> priorityOr0 c)
       (candidates maps node)"
proof (cases "candidates maps node = []")
  case True
  then show ?thesis by (simp add: convertBlockLoop_None)
next
  case False
  then obtain pre c post where d: "candidates maps node = pre @ c # post"
      "\<forall>x\<in>set pre. priorityOr0 x < priorityOr0 c"
      "\<forall>x\<in>set post. priorityOr0 x \<le> priorityOr0 c"
      "convertBlockLoop maps node None = Some c"
    using convertBlockLoop_first_highest by blast
  then show ?thesis
    using find_first_highest [OF d(1-3)] by simp
qed

lemma convertBlockLoop_strict_highest:
  assumes "c \<in> set (candidates maps node)"
    and "\<forall>c'\<in>set (candidates maps node). c' \<noteq> c \<longrightarrow> priorityOr0 c' < priorityOr0 c"
  shows "convertBlockLoop maps node None = Some c"
proof -
  obtain pre c0 post where d: "candidates maps node = pre @ c0 # post"
      "\<forall>x\<in>set pre. priorityOr0 x < priorityOr0 c0"
      "\<forall>x\<in>set post. priorityOr0 x \<le> priorityOr0 c0"
      "convertBlockLoop maps node None = Some c0"
    using convertBlockLoop_first_highest [of maps node] assms(1) by fastforce
  have "priorityOr0 c \<le> priorityOr0 c0"
    using assms(1) d(1-3) by (auto intro: less_imp_le)
  moreover have "c0 \<in> set (candidates maps node)"
    using d(1) by simp
  ultimately have "c0 = c"
    using assms(2) by (auto simp add: not_less [symmetric])
  then show ?thesis
    using d(4) by simp
qed

text \<open>
  Claim C2. The loop of \<^verbatim>\<open>convertBlock\<close> picks, among the non-null conversions the maps
  offer for the node (in registration order), the first one whose priority no other
  exceeds, a missing priority counting as 0; \<^verbatim>\<open>convertBlock\<close> applies that conversion
  and does nothing when there is none. Hence a conversion of strictly highest priority is
  applied whatever the order of the maps, and among several of the highest priority the
  one of the map registered first.
\<close>

theorem convertBlock_priority:
  "convertBlockLoop maps node None =
     find (\<lambda>c. \<forall>c'\<in>set (candidates maps node). priorityOr0 c' \<le> priorityOr0 c)
       (candidates maps node) \<and>
   convertBlock rv maps node st =
     (case convertBlockLoop maps node None of
        None \<Rightarrow> st
      | Some c \<Rightarrow> runConversion rv (convertBlock rv maps) (conversion c) node st) \<and>
   (\<forall>c maps'.
      c \<in> set (candidates maps node) \<and>
      (\<forall>c'\<in>set (candidates maps node). c' \<noteq> c \<longrightarrow> priorityOr0 c' < priorityOr0 c) \<and>
      set maps' = set maps \<longrightarrow>
      convertBlockLoop maps' node None = Some c \<and>
      convertBlock rv maps' node st = runConversion rv (convertBlock rv maps') (conversion c) node st) \<and>
   (\<forall>c \<in> set (candidates maps node). priority c = None \<longrightarrow> priorityOr0 c = 0)"
proof -
  have 1: "convertBlock rv ms node st =
     (case convertBlockLoop ms node None of
        None \<Rightarrow> st
      | Some c \<Rightarrow> runConversion rv (convertBlock rv ms) (conversion c) node st)" for ms
    by (subst convertBlock.simps) (simp split: option.splits)
  have 2: "convertBlockLoop maps' node None = Some c"
    if "c \<in> set (candidates maps node)"
      and "\<forall>c'\<in>set (candidates maps node). c' \<noteq> c \<longrightarrow> priorityOr0 c' < priorityOr0 c"
      and "set maps' = set maps" for c maps'
  proof -
    have "set (candidates maps' node) = set (candidates maps node)"
      using that(3) by (simp add: set_candidates)
    then show ?thesis
      using that(1,2) by (intro convertBlockLoop_strict_highest) simp_all
  qed
  have 3: "priorityOr0 c = 0" if "priority c = None" for c :: "Conversion MarkdownConversion"
    using that by (simp add: priorityOr0_def)
  have 4: "convertBlock rv maps' node st =
             runConversion rv (convertBlock rv maps') (conversion c) node st"
    if "c \<in> set (candidates maps node)"
      and "\<forall>c'\<in>set (candidates maps node). c' \<noteq> c \<longrightarrow> priorityOr0 c' < priorityOr0 c"
      and "set maps' = set maps" for c maps'
    using 1 [of maps'] 2 [OF that] by simp
  show ?thesis
    using convertBlockLoop_find [of maps node] 1 [of maps] 2 3 4
    by blast
qed

theorem convertBlock_priority_witness:
  "convertBlockLoop [lowPriorityMap, highPriorityMap] (DecoratorNode ''X'') None =
     Some \<lparr>conversion = TabConversion, priority = Some 3\<rparr> \<and>
   convertBlockLoop [highPriorityMap, lowPriorityMap] (DecoratorNode ''X'') None =
     Some \<lparr>conversion = TabConversion, priority = Some 3\<rparr> \<and>
   convertBlockLoop [highPriorityMap, tiedPriorityMap] (DecoratorNode ''X'') None =
     Some \<lparr>conversion = TabConversion, priority = Some 3\<rparr> \<and>
   convertBlockLoop [tiedPriorityMap, highPriorityMap] (DecoratorNode ''X'') None =
     Some \<lparr>conversion = TextConversion2, priority = Some 3\<rparr> \<and>
   priorityOr0 \<lparr>conversion = LineBreakConversion2, priority = None\<rparr> = 0"
proof -
  let ?n = "DecoratorNode ''X''"
  let ?lo = "\<lparr>conversion = LineBreakConversion2, priority = None\<rparr>"
  let ?hi = "\<lparr>conversion = TabConversion, priority = Some 3\<rparr>"
  let ?ti = "\<lparr>conversion = TextConversion2, priority = Some 3\<rparr>"
  have c1: "candidates [lowPriorityMap, highPriorityMap] ?n = [?lo, ?hi]"
    by (simp add: candidates_def lowPriorityMap_def highPriorityMap_def)
  have c2: "candidates [highPriorityMap, tiedPriorityMap] ?n = [?hi, ?ti]"
    by (simp add: candidates_def tiedPriorityMap_def highPriorityMap_def)
  have c3: "candidates [tiedPriorityMap, highPriorityMap] ?n = [?ti, ?hi]"
    by (simp add: candidates_def tiedPriorityMap_def highPriorityMap_def)
  note t1 = convertBlock_priority [of "[lowPriorityMap, highPriorityMap]" ?n Revision2 newState]
  note t2 = convertBlock_priority [of "[highPriorityMap, tiedPriorityMap]" ?n Revision2 newState]
  note t3 = convertBlock_priority [of "[tiedPriorityMap, highPriorityMap]" ?n Revision2 newState]
  have a: "convertBlockLoop [lowPriorityMap, highPriorityMap] ?n None = Some ?hi"
    using t1 by (simp add: c1 priorityOr0_def)
  have "?hi \<in> set (candidates [lowPriorityMap, highPriorityMap] ?n) \<and>
        (\<forall>c'\<in>set (candidates [lowPriorityMap, highPriorityMap] ?n).
           c' \<noteq> ?hi \<longrightarrow> priorityOr0 c' < priorityOr0 ?hi) \<and>
        set [highPriorityMap, lowPriorityMap] = set [lowPriorityMap, highPriorityMap]"
    by (auto simp add: c1 priorityOr0_def)
  with t1 have b: "convertBlockLoop [highPriorityMap, lowPriorityMap] ?n None = Some ?hi"
    by blast
  have c: "convertBlockLoop [highPriorityMap, tiedPriorityMap] ?n None = Some ?hi"
    using t2 by (simp add: c2 priorityOr0_def)
  have d: "convertBlockLoop [tiedPriorityMap, highPriorityMap] ?n None = Some ?ti"
    using t3 by (simp add: c3 priorityOr0_def)
  have "?lo \<in> set (candidates [lowPriorityMap, highPriorityMap] ?n)"
    by (simp add: c1)
  with t1 have e: "priorityOr0 ?lo = 0"
    by simp
  show ?thesis
    using a b c d e by simp
qed

section \<open>The result only grows\<close>

lemma prefix_addOutput: "prefix r (result st) \<Longrightarrow> prefix r (result (addOutput out st))"
  by simp

lemma prefix_addDelimLines: "prefix r (result st) \<Longrightarrow> prefix r (result (addDelimLines n d st))"
  by (simp add: addDelimLines_result)

lemma prefix_ensureNewLine: "prefix r (result st) \<Longrightarrow> prefix r (result (ensureNewLine st))"
  by (simp add: ensureNewLine_def prefix_addOutput)

lemma prefix_flushClose: "prefix r (result st) \<Longrightarrow> prefix r (result (flushClose sz st))"
  by (simp add: flushClose_def Let_def prefix_addOutput prefix_addDelimLines)

lemma prefix_write_m: "prefix r (result st) \<Longrightarrow> prefix r (result (write_m c st))"
  by (simp add: write_m_def Let_def prefix_addOutput prefix_flushClose)

lemma prefix_textLines: "prefix r (result st) \<Longrightarrow> prefix r (result (textLines ls st))"
  by (induction ls st rule: textLines.induct)
     (simp_all add: prefix_addOutput prefix_write_m)

lemma prefix_text_m: "prefix r (result st) \<Longrightarrow> prefix r (result (text_m t st))"
  by (simp add: text_m_def prefix_textLines)

lemma prefix_flushInline: "prefix r (result st) \<Longrightarrow> prefix r (result (flushInline st))"
  by (simp add: flushInline_def prefix_write_m)

lemma prefix_flushInlineText: "prefix r (result st) \<Longrightarrow> prefix r (result (flushInlineText st))"
  by (simp add: flushInlineText_def closeInlineText_def prefix_write_m)

lemma result_setters [simp]:
  "result (setDelim d st) = result st"
  "result (setStopNewline b st) = result st"
  "result (writeInline r st) = result st"
  "result (closeInlineText st) = result st"
  "result (closeBlock node st) = result st"
  "result (close st) = result st"
  by (simp_all add: setDelim_def setStopNewline_def writeInline_def closeInlineText_def
      closeBlock_def close_def)

lemma prefix_fold:
  assumes "\<And>x s. x \<in> set xs \<Longrightarrow> prefix (result s) (result (f x s))"
  shows "prefix r (result st) \<Longrightarrow> prefix r (result (fold f xs st))"
  using assms
proof (induction xs arbitrary: st)
  case Nil
  then show ?case by simp
next
  case (Cons x xs)
  have "prefix r (result (f x st))"
    using Cons.prems(1) Cons.prems(2) [of x st] by (auto intro: prefix_order.trans)
  then show ?case
    using Cons.IH [of "f x st"] Cons.prems(2) by simp
qed

lemma prefix_convertInlineWith:
  assumes "isElementNode parent"
    and "\<And>child s. child \<in> set (getChildren parent) \<Longrightarrow> prefix (result s) (result (cb child s))"
    and "prefix r (result st)"
  shows "prefix r (result (convertInlineWith rv cb parent st))"
  using assms
  by (cases rv)
     (simp_all add: convertInlineWith_def prefix_flushInline prefix_flushInlineText prefix_fold)

lemma prefix_runConversion:
  assumes "\<And>child s. child \<in> set (getChildren node) \<Longrightarrow> prefix (result s) (result (cb child s))"
    and "\<And>f s. c = CustomConversion f \<Longrightarrow> prefix (result s) (result (f node s))"
    and "prefix r (result st)"
  shows "prefix r (result (runConversion rv cb c node st))"
proof (cases c)
  case TextConversion1
  then show ?thesis using assms(3) by (cases node) simp_all
next
  case TextConversion2
  then show ?thesis using assms(3) by (cases node) simp_all
next
  case LineBreakConversion1
  then show ?thesis using assms(3)
    by (cases node) (simp_all add: prefix_ensureNewLine prefix_flushInlineText)
next
  case LineBreakConversion2
  then show ?thesis using assms(3)
    by (cases node) (simp_all add: prefix_ensureNewLine)
next
  case TabConversion
  then show ?thesis using assms(3) by (simp add: tabConversion_def prefix_write_m)
next
  case ParagraphConversion
  show ?thesis
  proof (cases node)
    case (ParagraphNode ch)
    then have "prefix r (result (convertInlineWith rv cb (ParagraphNode ch) st))"
      using assms(1,3) by (intro prefix_convertInlineWith) simp_all
    then show ?thesis
      using ParagraphConversion ParagraphNode assms(3) by (simp add: prefix_write_m)
  qed (simp_all add: ParagraphConversion assms(3))
next
  case LinkConversion
  show ?thesis
  proof (cases node)
    case (LinkNode auto url title ch)
    have "prefix r (result (fold cb ch s))" if "prefix r (result s)" for s
      using assms(1) that LinkNode by (intro prefix_fold) simp_all
    then show ?thesis
      using LinkConversion LinkNode assms(3)
      by (simp add: Let_def prefix_write_m prefix_flushInlineText)
  qed (simp_all add: LinkConversion assms(3))
next
  case HeadingConversion
  show ?thesis
  proof (cases node)
    case (HeadingNode n ch)
    have "prefix r (result (convertInlineWith rv cb (HeadingNode n ch) s))"
      if "prefix r (result s)" for s
      using assms(1) that HeadingNode by (intro prefix_convertInlineWith) simp_all
    then show ?thesis
      using HeadingConversion HeadingNode assms(3) by (simp add: prefix_write_m)
  qed (simp_all add: HeadingConversion assms(3))
next
  case (CustomConversion f)
  then show ?thesis
    using assms(2) [of f st] assms(3) by (auto intro: prefix_order.trans)
qed

lemma convertBlockLoop_in_candidates:
  "convertBlockLoop maps node None = Some c \<Longrightarrow> c \<in> set (candidates maps node)"
  using convertBlockLoop_first_highest [of maps node] convertBlockLoop_None [of maps node]
  by (cases "candidates maps node = []") auto

lemma prefix_convertBlock:
  assumes "\<forall>node. \<forall>c\<in>set (candidates maps node). \<forall>f. conversion c = CustomConversion f \<longrightarrow>
             (\<forall>s. prefix (result s) (result (f node s)))"
  shows "prefix (result st) (result (convertBlock rv maps node st))"
  using assms
proof (induction rv maps node st rule: convertBlock.induct)
  case (1 rv maps node st)
  show ?case
  proof (cases "convertBlockLoop maps node None")
    case None
    then show ?thesis
      by (subst convertBlock.simps) simp
  next
    case (Some c)
    have c: "c \<in> set (candidates maps node)"
      using Some by (rule convertBlockLoop_in_candidates)
    have "prefix (result st) (result (runConversion rv (convertBlock rv maps) (conversion c) node st))"
    proof (rule prefix_runConversion)
      fix child s assume "child \<in> set (getChildren node)"
      then show "prefix (result s) (result (convertBlock rv maps child s))"
        using "1.IH" [OF Some] "1.prems" by simp
    next
      fix f s assume "conversion c = CustomConversion f"
      then show "prefix (result s) (result (f node s))"
        using "1.prems" c by blast
    qed simp
    then show ?thesis
      using Some by (subst convertBlock.simps) simp
  qed
qed

lemma prefix_trans_step:
  "prefix r (result st) \<Longrightarrow> prefix (result st) (result st') \<Longrightarrow> prefix r (result st')"
  by (rule prefix_order.trans)

lemma prefix_convertInline:
  assumes "\<forall>node. \<forall>c\<in>set (candidates maps node). \<forall>f. conversion c = CustomConversion f \<longrightarrow>
             (\<forall>s. prefix (result s) (result (f node s)))"
  shows "prefix (result st) (result (convertInline rv maps parent st))"
proof (cases "isElementNode parent")
  case True
  then show ?thesis
    unfolding convertInline_def
    using prefix_convertBlock [OF assms] by (intro prefix_convertInlineWith) simp_all
next
  case False
  have a: "prefix r (result (convertBlock rv' maps parent s))" if "prefix r (result s)" for r s rv'
    using that prefix_convertBlock [OF assms, of s rv' parent] by (rule prefix_trans_step)
  show ?thesis
    using False
    by (cases rv)
       (simp_all add: convertInline_def convertInlineWith_def prefix_flushInline
          prefix_flushInlineText a)
qed

lemma prefix_wrapBlock:
  assumes "\<forall>s. prefix (result s) (result (fn s))"
  shows "prefix (result st) (result (wrapBlock dl firstDelim node fn st))"
proof -
  have "prefix r (result (fn s))" if "prefix r (result s)" for r s
    using that assms by (auto intro: prefix_order.trans)
  then show ?thesis
    by (simp add: wrapBlock_def Let_def prefix_write_m)
qed

lemma prefix_convertListItems:
  assumes "\<forall>node. \<forall>c\<in>set (candidates maps node). \<forall>f. conversion c = CustomConversion f \<longrightarrow>
             (\<forall>s. prefix (result s) (result (f node s)))"
  shows "prefix r (result st) \<Longrightarrow>
         prefix r (result (convertListItems rv maps node dl firstDelimFn index children st))"
proof (induction children arbitrary: index st)
  case Nil
  then show ?case by simp
next
  case (Cons child rest)
  have w: "prefix (result s) (result (wrapBlock dl (Some (firstDelimFn index)) node (convertBlock rv maps child) s))" for s
    using prefix_convertBlock [OF assms] by (intro prefix_wrapBlock) simp
  have "prefix r (result (if index \<noteq> 0 then flushClose 1 st else st))"
    using Cons.prems by (simp add: prefix_flushClose)
  then have "prefix r (result (wrapBlock dl (Some (firstDelimFn index)) node (convertBlock rv maps child)
          (if index \<noteq> 0 then flushClose 1 st else st)))"
    using w by (rule prefix_trans_step)
  then show ?case
    using Cons.IH by simp
qed

lemma prefix_convertList:
  assumes "\<forall>node. \<forall>c\<in>set (candidates maps node). \<forall>f. conversion c = CustomConversion f \<longrightarrow>
             (\<forall>s. prefix (result s) (result (f node s)))"
  shows "prefix (result st) (result (convertList rv maps st node dl firstDelimFn))"
  unfolding convertList_def Let_def
  by (intro prefix_convertListItems [OF assms])
     (simp add: prefix_flushClose getClosed_def split: option.splits)

lemma prefix_convertTableCell:
  assumes "\<forall>node. \<forall>c\<in>set (candidates maps node). \<forall>f. conversion c = CustomConversion f \<longrightarrow>
             (\<forall>s. prefix (result s) (result (f node s)))"
  shows "prefix (result st) (result (convertTableCell rv maps st node))"
proof -
  have "prefix (result s) (result (convertTableCellChild rv maps child s))" for child s
    using prefix_convertBlock [OF assms, of s rv child] prefix_convertInline [OF assms, of s rv child]
    by simp
  then have "prefix (result st) (result (fold (convertTableCellChild rv maps) (getChildren node) (setStopNewline True st)))"
    by (intro prefix_fold) simp_all
  then show ?thesis
    by (simp add: convertTableCell_def)
qed

text \<open>
  Claim C10. Every operation of the serialization state leaves the result it found as a
  prefix of the result it returns: the setters, \<^verbatim>\<open>ensureNewLine\<close>, \<^verbatim>\<open>flushClose\<close>,
  \<^verbatim>\<open>write\<close>, \<^verbatim>\<open>text\<close>, the inline buffer operations and both reconcilers'
  flushes, \<^verbatim>\<open>wrapBlock\<close> around a body that only appends, and \<^verbatim>\<open>convertBlock\<close>,
  \<^verbatim>\<open>convertInline\<close>, \<^verbatim>\<open>convertNode\<close>, \<^verbatim>\<open>convertList\<close> and \<^verbatim>\<open>convertTableCell\<close>
  over maps whose own conversion functions only append.
\<close>

theorem result_append_only:
  assumes "\<forall>node. \<forall>c\<in>set (candidates maps node). \<forall>f. conversion c = CustomConversion f \<longrightarrow>
             (\<forall>s. prefix (result s) (result (f node s)))"
    and "\<forall>s. prefix (result s) (result (fn s))"
  shows "prefix (result st) (result (setDelim d st)) \<and>
         prefix (result st) (result (setStopNewline b st)) \<and>
         prefix (result st) (result (ensureNewLine st)) \<and>
         prefix (result st) (result (flushClose sz st)) \<and>
         prefix (result st) (result (write_m content st)) \<and>
         prefix (result st) (result (text_m t st)) \<and>
         prefix (result st) (result (writeInline inlineText st)) \<and>
         prefix (result st) (result (flushInlineText st)) \<and>
         prefix (result st) (result (closeInlineText st)) \<and>
         prefix (result st) (result (flushInline st)) \<and>
         prefix (result st) (result (closeBlock node st)) \<and>
         prefix (result st) (result (close st)) \<and>
         prefix (result st) (result (wrapBlock dl firstDelim node fn st)) \<and>
         prefix (result st) (result (convertBlock rv maps node st)) \<and>
         prefix (result st) (result (convertInline rv maps node st)) \<and>
         prefix (result st) (result (convertNode rv maps node st)) \<and>
         prefix (result st) (result (convertList rv maps st node dl firstDelimFn)) \<and>
         prefix (result st) (result (convertTableCell rv maps st node))"
proof -
  have n: "prefix (result st) (result (convertNode rv maps node st))"
    unfolding convertNode_def
    using prefix_convertBlock [OF assms(1)] by (intro prefix_fold) simp_all
  show ?thesis
    using n prefix_convertBlock [OF assms(1)] prefix_convertInline [OF assms(1)]
      prefix_convertList [OF assms(1)] prefix_convertTableCell [OF assms(1)]
      prefix_wrapBlock [OF assms(2)]
    by (simp add: prefix_ensureNewLine prefix_flushClose prefix_write_m prefix_text_m
        prefix_flushInlineText prefix_flushInline)
qed

lemma candidates_defaultMarkdownConversionMap1:
  "c \<in> set (candidates [defaultMarkdownConversionMap1] node) \<Longrightarrow>
     conversion c \<in> {TextConversion1, LineBreakConversion1, TabConversion, ParagraphConversion,
                      LinkConversion, HeadingConversion}"
  by (auto simp add: candidates_def defaultMarkdownConversionMap1_def
      split: option.splits if_splits)

theorem result_append_only_witness:
  "prefix ''x'' (result (wrapBlock ''> '' None (ParagraphNode [TextNode ''a'' []]) (write_m ''y'')
                           (newState\<lparr>result := ''x''\<rparr>))) \<and>
   prefix ''x'' (result (convertBlock Revision1 [defaultMarkdownConversionMap1]
                           (ParagraphNode [TextNode ''a'' []]) (newState\<lparr>result := ''x''\<rparr>))) \<and>
   prefix ''x'' (result (flushClose 3 (newState\<lparr>result := ''x''\<rparr>)))"
proof -
  have h1: "\<forall>node. \<forall>c\<in>set (candidates [defaultMarkdownConversionMap1] node).
              \<forall>f. conversion c = CustomConversion f \<longrightarrow>
                (\<forall>s. prefix (result s) (result (f node s)))"
    using candidates_defaultMarkdownConversionMap1 by fastforce
  have h2: "\<forall>s. prefix (result s) (result (write_m ''y'' s))"
    by (simp add: prefix_write_m)
  have r: "result (newState\<lparr>result := ''x''\<rparr>) = ''x''"
    by simp
  show ?thesis
    using result_append_only [OF h1 h2, where st = "newState\<lparr>result := ''x''\<rparr>"
        and node = "ParagraphNode [TextNode ''a'' []]" and dl = "''> ''" and firstDelim = None
        and rv = Revision1 and sz = 3]
    unfolding r by blast
qed

section \<open>Properties of the built-in conversions\<close>

lemma flushClose_fields [simp]:
  "delim (flushClose sz st) = delim st"
  "stopNewline (flushClose sz st) = stopNewline st"
  "inlineBuffer (flushClose sz st) = inlineBuffer st"
  "closed (flushClose sz st) = (if stopNewline st then closed st else None)"
  by (simp_all add: flushClose_def Let_def)

lemma write_m_fields [simp]:
  "delim (write_m content st) = delim st"
  "stopNewline (write_m content st) = stopNewline st"
  "inlineBuffer (write_m content st) = inlineBuffer st"
  "closed (write_m content st) = (if stopNewline st then closed st else None)"
  by (simp_all add: write_m_def Let_def)

lemma ensureNewLine_fields [simp]:
  "delim (ensureNewLine st) = delim st"
  "stopNewline (ensureNewLine st) = stopNewline st"
  "inlineBuffer (ensureNewLine st) = inlineBuffer st"
  "closed (ensureNewLine st) = closed st"
  by (simp_all add: ensureNewLine_def)

lemma flushInline_fields [simp]:
  "delim (flushInline st) = delim st"
  "stopNewline (flushInline st) = stopNewline st"
  "inlineBuffer (flushInline st) = []"
  "closed (flushInline st) = (if stopNewline st then closed st else None)"
  by (simp_all add: flushInline_def)

lemma flushInlineText_fields [simp]:
  "delim (flushInlineText st) = delim st"
  "stopNewline (flushInlineText st) = stopNewline st"
  "inlineBuffer (flushInlineText st) = []"
  "closed (flushInlineText st) = (if stopNewline st then closed st else None)"
  by (simp_all add: flushInlineText_def closeInlineText_def)

lemma convertBlockLoop_builtin_heading:
  "convertBlockLoop (builtinCollection rv) (HeadingNode n ch) None =
     Some \<lparr>conversion = HeadingConversion, priority = Some 0\<rparr>"
  by (cases rv)
     (simp_all add: builtinCollection_def defaultMarkdownConversionMap_def
        defaultMarkdownConversionMap1_def defaultMarkdownConversionMap2_def
        headingMarkdownConversionMap_def)

lemma convertBlockLoop_builtin_paragraph:
  "convertBlockLoop (builtinCollection rv) (ParagraphNode ch) None =
     Some \<lparr>conversion = ParagraphConversion, priority = Some 0\<rparr>"
  by (cases rv)
     (simp_all add: builtinCollection_def defaultMarkdownConversionMap_def
        defaultMarkdownConversionMap1_def defaultMarkdownConversionMap2_def
        headingMarkdownConversionMap_def)

lemma convertBlock_builtin_heading:
  "convertBlock rv (builtinCollection rv) (HeadingNode n ch) st =
     closeBlock (HeadingNode n ch)
       (convertInline rv (builtinCollection rv) (HeadingNode n ch)
          (write_m (replicate n (CHR ''#'') @ '' '') st))"
  by (subst convertBlock.simps)
     (simp add: convertBlockLoop_builtin_heading convertInline_def)

lemma convertBlock_builtin_paragraph:
  "convertBlock rv (builtinCollection rv) (ParagraphNode ch) st =
     (if stopNewline st then convertInline rv (builtinCollection rv) (ParagraphNode ch) st
      else closeBlock (ParagraphNode ch)
             (if ch = [] then write_m ''<br>'' st
              else convertInline rv (builtinCollection rv) (ParagraphNode ch) st))"
  by (subst convertBlock.simps)
     (simp add: convertBlockLoop_builtin_paragraph convertInline_def getStopNewline_def)

lemma result_write_m: "result (write_m content st) = result (write_m [] st) @ content"
  by (simp add: write_m_def Let_def)

lemma closed_closeBlock [simp]: "closed (closeBlock node st) = Some node"
  by (simp add: closeBlock_def)

text \<open>
  Claim C9. On the built-in collection of either revision, converting a heading of level
  \<open>n\<close> writes \<open>n\<close> characters \<^verbatim>\<open>#\<close> and a space (through \<^verbatim>\<open>write\<close>, so after a
  pending close and the delimiter), then converts the inline content and marks the
  heading as the pending close. With suppression off, converting an empty paragraph
  writes \<^verbatim>\<open><br>\<close> and marks the paragraph as the pending close. A level-2 heading
  with the plain text \<^verbatim>\<open>Title\<close> serializes to \<^verbatim>\<open>## Title\<close>, an empty paragraph to
  \<^verbatim>\<open><br>\<close>.
\<close>

theorem heading_and_empty_paragraph:
  "convertBlock rv (builtinCollection rv) (HeadingNode n ch) st =
     closeBlock (HeadingNode n ch)
       (convertInline rv (builtinCollection rv) (HeadingNode n ch)
          (write_m (replicate n (CHR ''#'') @ '' '') st)) \<and>
   result (write_m (replicate n (CHR ''#'') @ '' '') st) =
     result (write_m [] st) @ replicate n (CHR ''#'') @ '' '' \<and>
   closed (convertBlock rv (builtinCollection rv) (HeadingNode n ch) st) = Some (HeadingNode n ch) \<and>
   (\<not> stopNewline st \<longrightarrow>
      convertBlock rv (builtinCollection rv) (ParagraphNode []) st =
        closeBlock (ParagraphNode []) (write_m ''<br>'' st) \<and>
      result (convertBlock rv (builtinCollection rv) (ParagraphNode []) st) =
        result (write_m [] st) @ ''<br>'' \<and>
      closed (convertBlock rv (builtinCollection rv) (ParagraphNode []) st) = Some (ParagraphNode [])) \<and>
   createGenerateMarkdownFromNode Revision1 []
     (ElementNode ''root'' False [HeadingNode 2 [TextNode ''Title'' []]]) = ''## Title'' \<and>
   createGenerateMarkdownFromNode Revision2 [headingMarkdownConversionMap]
     (ElementNode ''root'' False [HeadingNode 2 [TextNode ''Title'' []]]) = ''## Title'' \<and>
   createGenerateMarkdownFromNode Revision1 [] (ElementNode ''root'' False [ParagraphNode []]) = ''<br>'' \<and>
   createGenerateMarkdownFromNode Revision2 [] (ElementNode ''root'' False [ParagraphNode []]) = ''<br>''"
proof -
  have e1: "createGenerateMarkdownFromNode Revision1 []
     (ElementNode ''root'' False [HeadingNode 2 [TextNode ''Title'' []]]) = ''## Title''"
    by code_simp
  have e2: "createGenerateMarkdownFromNode Revision2 [headingMarkdownConversionMap]
     (ElementNode ''root'' False [HeadingNode 2 [TextNode ''Title'' []]]) = ''## Title''"
    by code_simp
  have e3: "createGenerateMarkdownFromNode Revision1 [] (ElementNode ''root'' False [ParagraphNode []]) = ''<br>''"
    by code_simp
  have e4: "createGenerateMarkdownFromNode Revision2 [] (ElementNode ''root'' False [ParagraphNode []]) = ''<br>''"
    by code_simp
  have w: "result (write_m (replicate n (CHR ''#'') @ '' '') st) =
     result (write_m [] st) @ replicate n (CHR ''#'') @ '' ''"
    by (rule result_write_m)
  have p: "result (closeBlock (ParagraphNode []) (write_m ''<br>'' st)) = result (write_m [] st) @ ''<br>''"
    using result_write_m [of "''<br>''" st] by simp
  show ?thesis
    using e1 e2 e3 e4 w p
    by (simp add: convertBlock_builtin_heading convertBlock_builtin_paragraph)
qed

theorem heading_and_empty_paragraph_witness:
  "\<not> stopNewline newState \<and>
   result (convertBlock Revision2 (builtinCollection Revision2) (ParagraphNode []) newState) = ''<br>'' \<and>
   closed (convertBlock Revision2 (builtinCollection Revision2) (ParagraphNode []) newState) =
     Some (ParagraphNode []) \<and>
   closed (convertBlock Revision1 (builtinCollection Revision1) (HeadingNode 2 [TextNode ''Title'' []]) newState)
     = Some (HeadingNode 2 [TextNode ''Title'' []])"
proof -
  have h: "\<not> stopNewline newState"
    by (simp add: newState_def)
  have w: "result (write_m [] newState) = []"
    by (simp add: write_m_def flushClose_def newState_def)
  note t2 = heading_and_empty_paragraph [of Revision2 0 "[]" newState]
  note t1 = heading_and_empty_paragraph [of Revision1 2 "[TextNode ''Title'' []]" newState]
  from t2 h have a: "result (convertBlock Revision2 (builtinCollection Revision2) (ParagraphNode []) newState) =
      result (write_m [] newState) @ ''<br>''"
    by blast
  from t2 h have b: "closed (convertBlock Revision2 (builtinCollection Revision2) (ParagraphNode []) newState) =
      Some (ParagraphNode [])"
    by blast
  from t1 have c: "closed (convertBlock Revision1 (builtinCollection Revision1)
      (HeadingNode 2 [TextNode ''Title'' []]) newState) = Some (HeadingNode 2 [TextNode ''Title'' []])"
    by blast
  show ?thesis
    using h a b c by (simp add: w)
qed

text \<open>The line break conversion of the first revision flushes the inline buffer and then
  ensures the line end: the buffer is empty afterwards and no pending close is set.\<close>

lemma lineBreakConversion1_flushes:
  "lineBreakConversion1 LineBreakNode st = ensureNewLine (flushInlineText st) \<and>
   inlineBuffer (lineBreakConversion1 LineBreakNode st) = [] \<and>
   closed (lineBreakConversion1 LineBreakNode st) = (if stopNewline st then closed st else None) \<and>
   prefix (result (write_m (getInlineText st) st)) (result (lineBreakConversion1 LineBreakNode st))"
  by (simp add: flushInlineText_def closeInlineText_def prefix_ensureNewLine)

text \<open>
  Claim C7 at its failing input. The second revision's line break conversion calls
  \<^verbatim>\<open>ensureNewLine\<close> only: with the run \<^verbatim>\<open>a\<close> in the buffer and \<^verbatim>\<open>x\<close> written, it
  appends the line feed and leaves \<^verbatim>\<open>a\<close> in the buffer, where the first revision
  writes \<^verbatim>\<open>a\<close>, empties the buffer and then appends the line feed. A paragraph
  \<^verbatim>\<open>a\<close>, line break, \<^verbatim>\<open>b\<close> serializes to \<^verbatim>\<open>ab\<close> in the second revision and to
  \<^verbatim>\<open>a\<close>, line feed, \<^verbatim>\<open>b\<close> in the first.
\<close>

theorem lineBreakConversion2_does_not_flush:
  "lineBreakConversion2 LineBreakNode
     (newState\<lparr>result := ''x'', inlineBuffer := [\<lparr>itext = ''a'', formats = []\<rparr>]\<rparr>) =
     newState\<lparr>result := ''x'' @ newline, inlineBuffer := [\<lparr>itext = ''a'', formats = []\<rparr>]\<rparr> \<and>
   lineBreakConversion1 LineBreakNode
     (newState\<lparr>result := ''x'', inlineBuffer := [\<lparr>itext = ''a'', formats = []\<rparr>]\<rparr>) =
     newState\<lparr>result := ''xa'' @ newline\<rparr> \<and>
   createGenerateMarkdownFromNode Revision2 []
     (ElementNode ''root'' False [ParagraphNode [TextNode ''a'' [], LineBreakNode, TextNode ''b'' []]]) = ''ab'' \<and>
   createGenerateMarkdownFromNode Revision1 []
     (ElementNode ''root'' False [ParagraphNode [TextNode ''a'' [], LineBreakNode, TextNode ''b'' []]]) =
     ''a'' @ newline @ ''b''"
  by code_simp

section \<open>Conversions under blank-line suppression\<close>

lemma flushClose_stopNewline: "stopNewline st \<Longrightarrow> flushClose sz st = st"
  by (simp add: flushClose_def)

lemma setter_fields [simp]:
  "stopNewline (writeInline r st) = stopNewline st"
  "closed (writeInline r st) = closed st"
  "stopNewline (closeInlineText st) = stopNewline st"
  "closed (closeInlineText st) = closed st"
  by (simp_all add: writeInline_def closeInlineText_def)

lemma quiet_fold:
  assumes "\<And>x s. x \<in> set xs \<Longrightarrow> stopNewline s \<Longrightarrow>
             stopNewline (f x s) \<and> closed (f x s) = closed s"
    and "stopNewline st"
  shows "stopNewline (fold f xs st) \<and> closed (fold f xs st) = closed st"
  using assms
proof (induction xs arbitrary: st)
  case Nil
  then show ?case by simp
next
  case (Cons x xs)
  have 1: "stopNewline (f x st) \<and> closed (f x st) = closed st"
    using Cons.prems by simp
  have "stopNewline (fold f xs (f x st)) \<and> closed (fold f xs (f x st)) = closed (f x st)"
    using Cons.prems(1) 1 by (intro Cons.IH) simp_all
  with 1 show ?case by simp
qed

lemma quiet_convertInlineWith:
  assumes "isElementNode parent"
    and "\<And>child s. child \<in> set (getChildren parent) \<Longrightarrow> stopNewline s \<Longrightarrow>
           stopNewline (cb child s) \<and> closed (cb child s) = closed s"
    and "stopNewline st"
  shows "stopNewline (convertInlineWith rv cb parent st) \<and>
         closed (convertInlineWith rv cb parent st) = closed st"
proof (cases rv)
  case Revision1
  have "stopNewline (fold cb (getChildren parent) (flushInlineText st)) \<and>
        closed (fold cb (getChildren parent) (flushInlineText st)) = closed (flushInlineText st)"
    using assms by (intro quiet_fold) simp_all
  then show ?thesis
    using Revision1 assms(1,3) by (simp add: convertInlineWith_def)
next
  case Revision2
  have "stopNewline (fold cb (getChildren parent) st) \<and>
        closed (fold cb (getChildren parent) st) = closed st"
    using assms by (intro quiet_fold) simp_all
  then show ?thesis
    using Revision2 assms(1,3) by (simp add: convertInlineWith_def)
qed

lemma quiet_runConversion:
  assumes "\<And>child s. child \<in> set (getChildren node) \<Longrightarrow> stopNewline s \<Longrightarrow>
             stopNewline (cb child s) \<and> closed (cb child s) = closed s"
    and "\<And>f. c \<noteq> CustomConversion f"
    and "\<And>n ch. node \<noteq> HeadingNode n ch"
    and "stopNewline st"
  shows "stopNewline (runConversion rv cb c node st) \<and>
         closed (runConversion rv cb c node st) = closed st"
proof (cases c)
  case TextConversion1
  then show ?thesis using assms(4) by (cases node) simp_all
next
  case TextConversion2
  then show ?thesis using assms(4) by (cases node) simp_all
next
  case LineBreakConversion1
  then show ?thesis using assms(4) by (cases node) simp_all
next
  case LineBreakConversion2
  then show ?thesis using assms(4) by (cases node) simp_all
next
  case TabConversion
  then show ?thesis using assms(4) by (simp add: tabConversion_def)
next
  case ParagraphConversion
  show ?thesis
  proof (cases node)
    case (ParagraphNode ch)
    have "stopNewline (convertInlineWith rv cb (ParagraphNode ch) st) \<and>
          closed (convertInlineWith rv cb (ParagraphNode ch) st) = closed st"
      using assms(1,4) ParagraphNode by (intro quiet_convertInlineWith) simp_all
    then show ?thesis
      using ParagraphConversion ParagraphNode assms(4) by (simp add: getStopNewline_def)
  qed (simp_all add: ParagraphConversion assms(4))
next
  case LinkConversion
  show ?thesis
  proof (cases node)
    case (LinkNode auto url title ch)
    have f: "stopNewline (fold cb ch s) \<and> closed (fold cb ch s) = closed s" if "stopNewline s" for s
      using assms(1) that LinkNode by (intro quiet_fold) simp_all
    show ?thesis
      using LinkConversion LinkNode assms(4) f [of st] f [of "flushInlineText st"]
      by (simp add: Let_def)
  qed (simp_all add: LinkConversion assms(4))
next
  case HeadingConversion
  show ?thesis
  proof (cases node)
    case (HeadingNode n ch)
    then show ?thesis using assms(3) by blast
  qed (simp_all add: HeadingConversion assms(4))
next
  case (CustomConversion f)
  then show ?thesis using assms(2) by simp
qed

lemma containsHeading_child:
  "child \<in> set (getChildren node) \<Longrightarrow> \<not> containsHeading node \<Longrightarrow> \<not> containsHeading child"
  by (cases node) (auto simp add: list_ex_iff)

lemma quiet_convertBlock:
  assumes "\<forall>node. \<forall>c\<in>set (candidates maps node). \<forall>f. conversion c \<noteq> CustomConversion f"
    and "\<not> containsHeading node"
    and "stopNewline st"
  shows "stopNewline (convertBlock rv maps node st) \<and>
         closed (convertBlock rv maps node st) = closed st"
  using assms
proof (induction rv maps node st rule: convertBlock.induct)
  case (1 rv maps node st)
  show ?case
  proof (cases "convertBlockLoop maps node None")
    case None
    then show ?thesis
      using "1.prems" by (subst (1 2) convertBlock.simps) simp
  next
    case (Some c)
    have c: "c \<in> set (candidates maps node)"
      using Some by (rule convertBlockLoop_in_candidates)
    have "stopNewline (runConversion rv (convertBlock rv maps) (conversion c) node st) \<and>
          closed (runConversion rv (convertBlock rv maps) (conversion c) node st) = closed st"
    proof (rule quiet_runConversion)
      fix child and s :: MarkdownConvertorState
      assume "child \<in> set (getChildren node)" "stopNewline s"
      then show "stopNewline (convertBlock rv maps child s) \<and>
                 closed (convertBlock rv maps child s) = closed s"
        using "1.IH" [OF Some] "1.prems" containsHeading_child by blast
    next
      fix f show "conversion c \<noteq> CustomConversion f"
        using "1.prems"(1) c by blast
    next
      fix n ch show "node \<noteq> HeadingNode n ch"
        using "1.prems"(2) by auto
    next
      show "stopNewline st" by (rule "1.prems"(3))
    qed
    then show ?thesis
      using Some by (subst (1 2) convertBlock.simps) simp
  qed
qed

lemma candidates_builtinCollection:
  "c \<in> set (candidates (builtinCollection rv) node) \<Longrightarrow> conversion c \<noteq> CustomConversion f"
  by (cases rv)
     (auto simp add: candidates_def builtinCollection_def
        defaultMarkdownConversionMap_def defaultMarkdownConversionMap1_def
        defaultMarkdownConversionMap2_def headingMarkdownConversionMap_def
        split: option.splits if_splits)

text \<open>
  Claim C6. In a state with blank-line suppression on, \<^verbatim>\<open>flushClose\<close> changes
  nothing for any size, pending close or not; the paragraph conversion is the call of
  \<^verbatim>\<open>convertInline\<close> on the paragraph and nothing else; and on the built-in collection
  of either revision, converting a paragraph that holds no heading leaves suppression on
  and the pending-close marker as it was.
\<close>

theorem paragraph_under_stopNewline:
  assumes "stopNewline st"
  shows "flushClose sz st = st \<and>
         paragraphConversion ci (ParagraphNode ch) st = ci (ParagraphNode ch) st \<and>
         convertBlock rv (builtinCollection rv) (ParagraphNode ch) st =
           convertInline rv (builtinCollection rv) (ParagraphNode ch) st \<and>
         (\<not> containsHeading (ParagraphNode ch) \<longrightarrow>
            stopNewline (convertBlock rv (builtinCollection rv) (ParagraphNode ch) st) \<and>
            closed (convertBlock rv (builtinCollection rv) (ParagraphNode ch) st) = closed st)"
proof -
  have q: "stopNewline (convertBlock rv (builtinCollection rv) (ParagraphNode ch) st) \<and>
           closed (convertBlock rv (builtinCollection rv) (ParagraphNode ch) st) = closed st"
    if "\<not> containsHeading (ParagraphNode ch)"
    using that assms candidates_builtinCollection
    by (intro quiet_convertBlock) blast+
  show ?thesis
    using assms q
    by (simp add: flushClose_stopNewline getStopNewline_def convertBlock_builtin_paragraph)
qed

theorem paragraph_under_stopNewline_witness:
  "stopNewline (newState\<lparr>closed := Some LineBreakNode, stopNewline := True\<rparr>) \<and>
   flushClose 2 (newState\<lparr>closed := Some LineBreakNode, stopNewline := True\<rparr>) =
     newState\<lparr>closed := Some LineBreakNode, stopNewline := True\<rparr> \<and>
   closed (convertBlock Revision1 (builtinCollection Revision1) (ParagraphNode [TextNode ''a'' []])
             (newState\<lparr>closed := Some LineBreakNode, stopNewline := True\<rparr>)) = Some LineBreakNode \<and>
   result (convertBlock Revision1 (builtinCollection Revision1) (ParagraphNode [TextNode ''a'' []])
             (newState\<lparr>closed := Some LineBreakNode, stopNewline := True\<rparr>)) = ''a''"
proof -
  let ?st = "newState\<lparr>closed := Some LineBreakNode, stopNewline := True\<rparr>"
  have h: "stopNewline ?st"
    by simp
  have n: "\<not> containsHeading (ParagraphNode [TextNode ''a'' []])"
    by simp
  have c: "closed ?st = Some LineBreakNode"
    by simp
  have r: "result (convertBlock Revision1 (builtinCollection Revision1) (ParagraphNode [TextNode ''a'' []]) ?st) = ''a''"
    by code_simp
  note t = paragraph_under_stopNewline [OF h, of 2 _ "[TextNode ''a'' []]" Revision1]
  from t have a: "flushClose 2 ?st = ?st"
    by blast
  from t n have b: "closed (convertBlock Revision1 (builtinCollection Revision1)
      (ParagraphNode [TextNode ''a'' []]) ?st) = closed ?st"
    by blast
  show ?thesis
    using h a b c r by simp
qed

section \<open>Properties of the unclosed-tag reconciler\<close>

lemma isSameFormat_refl [simp]: "isSameFormat f f"
  by (simp add: isSameFormat_def)















end
